theory Spec2Isabelle
  imports Main "HOL-Library.Sublist" "HOL-Library.AList" "HOL-Library.Char_ord"
    "HOL-Library.List_Lexorder"
begin

section \<open>The backup tool: data model\<close>

text \<open>
  The program (\<^verbatim>\<open>backup/main.py\<close>) packs the regular files below a directory into a
  compressed tar archive with a JSON manifest beside it, and restores such an archive
  while checking the archive's checksum and every file's checksum.

  Everything the program does goes through the file system, the process's working
  directory and the two output streams, so the model threads a \<open>world\<close> through every
  operation. An exception is a value \<open>Inl e\<close>; the world an operation leaves behind when
  it raises is returned with the exception, as a Python exception does not undo writes.

  The digest (\<^verbatim>\<open>hashlib\<close>), the archive container (\<^verbatim>\<open>tarfile\<close>, gzip), the JSON
  reader and the clock are outside the program: they are the fields of an \<open>env\<close> that every
  operation takes as a parameter.
\<close>

type_synonym bytes = string

text \<open>A location in the file system: the components of an absolute, normalised path.\<close>

type_synonym fpath = "string list"

text \<open>\<^verbatim>\<open>pathlib.Path\<close>: a root marker and the components (\<^verbatim>\<open>Path.parts\<close> without the root).\<close>

datatype path = Path (is_absolute: bool) (parts: "string list")

text \<open>
  \<^verbatim>\<open>ManifestFile\<close> and \<^verbatim>\<open>Manifest\<close> (both \<^verbatim>\<open>TypedDict\<close>). The key \<^verbatim>\<open>checksum\<close> of a
  \<^verbatim>\<open>ManifestFile\<close> is the field \<open>file_checksum\<close> here, as both records live in one name space.
\<close>

record ManifestFile =
  path :: string
  file_checksum :: string

record Manifest =
  archive_name :: string
  checksum :: string
  checksum_algorithm :: string
  creation_time :: int
  files :: "ManifestFile list"

record ChecksumMismatch =
  generated :: string
  expected :: string

datatype error =
    FileNotFoundError
  | IsADirectoryError
  | NotADirectoryError
  | FileExistsError
  | ValueError string
  | JSONDecodeError
  | ReadError
  | Exception string

record world =
  fs_files :: "(fpath \<times> bytes) list"
  fs_dirs :: "fpath list"
  cwd :: fpath
  stdout :: "string list"
  stderr :: "string list"

text \<open>
  \<open>fs_files\<close> lists the regular files in the order a directory listing gives them;
  \<open>fs_dirs\<close> the directories (the root \<open>[]\<close> is always one). Symbolic links, permissions
  and special files are not modelled. Each entry of \<open>stdout\<close> and \<open>stderr\<close> is the text of
  one \<^verbatim>\<open>print\<close> call.
\<close>

record env =
  digest :: "string \<Rightarrow> bytes \<Rightarrow> string option"
  tar_pack :: "(string \<times> bytes) list \<Rightarrow> bytes"
  tar_unpack :: "bytes \<Rightarrow> (string \<times> bytes) list option"
  json_load :: "bytes \<Rightarrow> Manifest option"
  time_now :: int

text \<open>
  \<open>digest E alg b\<close> is \<^verbatim>\<open>hashlib.new(alg)\<close> fed \<open>b\<close>, as a hex digest; \<open>None\<close> when the
  algorithm is not registered. \<open>tar_pack\<close> is the gzip-compressed tar stream holding the
  given members (name, content), \<open>tar_unpack\<close> reads one back (\<open>None\<close> for bytes that are
  no archive); members are regular files. \<open>json_load\<close> is \<^verbatim>\<open>json.load\<close> of a manifest,
  typed as the source annotates it (\<^verbatim>\<open>manifest: Manifest = json.load(f)\<close>).
\<close>

definition EX_OK :: int where "EX_OK = 0"
definition EX_USAGE :: int where "EX_USAGE = 64"
definition EX_DATAERR :: int where "EX_DATAERR = 65"

section \<open>Path strings\<close>

text \<open>\<^verbatim>\<open>s.split("/")\<close> and \<^verbatim>\<open>"/".join(xs)\<close>.\<close>

fun split_sep :: "string \<Rightarrow> string list" where
  "split_sep [] = [[]]"
| "split_sep (c # cs) =
     (if c = CHR ''/'' then [] # split_sep cs
      else (c # hd (split_sep cs)) # tl (split_sep cs))"

fun join_sep :: "string \<Rightarrow> string list \<Rightarrow> string" where
  "join_sep sep [] = []"
| "join_sep sep [x] = x"
| "join_sep sep (x # y # ys) = x @ sep @ join_sep sep (y # ys)"

definition startswith :: "string \<Rightarrow> string \<Rightarrow> bool" where
  "startswith s p = prefix p s"

text \<open>\<^verbatim>\<open>Path(s)\<close>: empty components and \<^verbatim>\<open>.\<close> are dropped, \<^verbatim>\<open>..\<close> is kept.\<close>

definition path_of_str :: "string \<Rightarrow> path" where
  "path_of_str s =
     Path (startswith s ''/'') (filter (\<lambda>c. c \<noteq> [] \<and> c \<noteq> ''.'') (split_sep s))"

text \<open>\<^verbatim>\<open>str(p)\<close>.\<close>

definition str_of_path :: "path \<Rightarrow> string" where
  "str_of_path p =
     (if is_absolute p then ''/'' @ join_sep ''/'' (parts p)
      else if parts p = [] then ''.''
      else join_sep ''/'' (parts p))"

text \<open>\<^verbatim>\<open>p / rel\<close>, for \<open>rel\<close> the components of a relative path.\<close>

definition path_join :: "path \<Rightarrow> string list \<Rightarrow> path" where
  "path_join p rel = Path (is_absolute p) (parts p @ rel)"

text \<open>
  \<^verbatim>\<open>repr(s)\<close> of a string: in single quotes, or in double quotes when the string holds
  a single quote and no double quote; the quote, the backslash and the characters that
  are not printable are escaped.
\<close>

definition hex_digit :: "nat \<Rightarrow> char" where
  "hex_digit n = ''0123456789abcdef'' ! n"

definition repr_char :: "char \<Rightarrow> char \<Rightarrow> string" where
  "repr_char quote c =
     (if c = quote \<or> c = CHR 0x5C then [CHR 0x5C, c]
      else if c = CHR 0x09 then [CHR 0x5C, CHR ''t'']
      else if c = CHR 0x0A then [CHR 0x5C, CHR ''n'']
      else if c = CHR 0x0D then [CHR 0x5C, CHR ''r'']
      else if (of_char c :: nat) < 32 \<or> (127 \<le> (of_char c :: nat) \<and> (of_char c :: nat) \<le> 160)
               \<or> (of_char c :: nat) = 173
      then [CHR 0x5C, CHR ''x'', hex_digit (of_char c div 16), hex_digit (of_char c mod 16)]
      else [c])"

definition repr :: "string \<Rightarrow> string" where
  "repr s =
     (let quote = (if CHR 0x27 \<in> set s \<and> CHR 0x22 \<notin> set s then CHR 0x22 else CHR 0x27)
      in [quote] @ concat (map (repr_char quote) s) @ [quote])"

text \<open>
  \<^verbatim>\<open>p.relative_to(other)\<close>: the components of \<open>p\<close> after those of \<open>other\<close>;
  \<^verbatim>\<open>ValueError\<close> when \<open>other\<close> is not an ancestor of \<open>p\<close>, with the message of
  \<^verbatim>\<open>pathlib\<close> in Python 3.11, which names the two paths (the second one as its parts
  joined, so the empty relative path is the empty string).
\<close>

definition relative_to :: "path \<Rightarrow> path \<Rightarrow> error + path" where
  "relative_to p other =
     (if is_absolute p = is_absolute other \<and> prefix (parts other) (parts p)
      then Inr (Path False (drop (length (parts other)) (parts p)))
      else
        let formatted =
              (if is_absolute other then ''/'' @ join_sep ''/'' (parts other)
               else join_sep ''/'' (parts other))
        in Inl (ValueError
                  (repr (str_of_path p) @ '' is not in the subpath of '' @ repr formatted @
                   '' OR one path is relative and the other is absolute.'')))"

text \<open>\<^verbatim>\<open>os.path.join(a, b)\<close>, \<^verbatim>\<open>os.path.normpath\<close> and \<^verbatim>\<open>os.path.commonprefix\<close>.\<close>

definition os_path_join :: "string \<Rightarrow> string \<Rightarrow> string" where
  "os_path_join a b =
     (if startswith b ''/'' then b
      else if a = [] \<or> last a = CHR ''/'' then a @ b
      else a @ ''/'' @ b)"

fun normpath_comps :: "bool \<Rightarrow> string list \<Rightarrow> string list \<Rightarrow> string list" where
  "normpath_comps initial_slashes new_comps [] = new_comps"
| "normpath_comps initial_slashes new_comps (c # comps) =
     (if c = [] \<or> c = ''.'' then normpath_comps initial_slashes new_comps comps
      else if c \<noteq> ''..'' \<or> (\<not> initial_slashes \<and> new_comps = [])
               \<or> (new_comps \<noteq> [] \<and> last new_comps = ''..'')
      then normpath_comps initial_slashes (new_comps @ [c]) comps
      else if new_comps \<noteq> [] then normpath_comps initial_slashes (butlast new_comps) comps
      else normpath_comps initial_slashes new_comps comps)"

definition normpath :: "string \<Rightarrow> string" where
  "normpath p =
     (if p = [] then ''.''
      else
        let initial_slashes =
              (if startswith p ''/'' then
                 (if startswith p ''//'' \<and> \<not> startswith p ''///'' then 2 else 1)
               else (0::nat));
            comps = normpath_comps (initial_slashes \<noteq> 0) [] (split_sep p);
            p' = replicate initial_slashes CHR ''/'' @ join_sep ''/'' comps
        in if p' = [] then ''.'' else p')"

definition commonprefix :: "string list \<Rightarrow> string" where
  "commonprefix m =
     (if m = [] then [] else longest_common_prefix (Min (set m)) (Max (set m)))"

section \<open>The file system\<close>

text \<open>
  How the kernel resolves a path: a relative path starts at the working directory, and
  \<^verbatim>\<open>..\<close> steps to the parent (the root is its own parent). Without symbolic links
  \<^verbatim>\<open>Path.resolve()\<close> computes the same location. The model steps back over a component
  whether or not it names an existing directory.
\<close>

fun resolve_from :: "fpath \<Rightarrow> string list \<Rightarrow> fpath" where
  "resolve_from acc [] = acc"
| "resolve_from acc (c # cs) =
     resolve_from (if c = ''..'' then butlast acc else acc @ [c]) cs"

definition abs_key :: "world \<Rightarrow> path \<Rightarrow> fpath" where
  "abs_key w p = resolve_from (if is_absolute p then [] else cwd w) (parts p)"

definition resolve :: "world \<Rightarrow> path \<Rightarrow> path" where
  "resolve w p = Path True (abs_key w p)"

definition Path_cwd :: "world \<Rightarrow> path" where
  "Path_cwd w = Path True (cwd w)"

definition os_getcwd :: "world \<Rightarrow> string" where
  "os_getcwd w = ''/'' @ join_sep ''/'' (cwd w)"

definition os_path_abspath :: "world \<Rightarrow> string \<Rightarrow> string" where
  "os_path_abspath w p =
     normpath (if startswith p ''/'' then p else os_path_join (os_getcwd w) p)"

definition is_dir :: "world \<Rightarrow> fpath \<Rightarrow> bool" where
  "is_dir w k = (k = [] \<or> k \<in> set (fs_dirs w))"

definition is_file :: "world \<Rightarrow> fpath \<Rightarrow> bool" where
  "is_file w k = (map_of (fs_files w) k \<noteq> None)"

text \<open>
  \<^verbatim>\<open>open(p, "rb").read()\<close>: the content of the file; a directory cannot be read, a path
  that runs through a regular file is not a directory, and anything else is not found.
\<close>

definition read_file :: "world \<Rightarrow> path \<Rightarrow> error + bytes" where
  "read_file w p =
     (let k = abs_key w p in
      case map_of (fs_files w) k of
        Some b \<Rightarrow> Inr b
      | None \<Rightarrow>
          if is_dir w k then Inl IsADirectoryError
          else if list_ex (is_file w) (prefixes (butlast k)) then Inl NotADirectoryError
          else Inl FileNotFoundError)"

text \<open>
  Opening \<open>p\<close> for writing and writing \<open>b\<close>: the file is created in its (existing)
  directory, or its content replaced.
\<close>

definition write_file :: "path \<Rightarrow> bytes \<Rightarrow> world \<Rightarrow> (error + unit) \<times> world" where
  "write_file p b w =
     (let k = abs_key w p in
      if is_dir w k then (Inl IsADirectoryError, w)
      else if list_ex (is_file w) (prefixes (butlast k)) then (Inl NotADirectoryError, w)
      else if \<not> is_dir w (butlast k) then (Inl FileNotFoundError, w)
      else (Inr (), w\<lparr>fs_files := AList.update k b (fs_files w)\<rparr>))"

text \<open>\<^verbatim>\<open>os.chdir(p)\<close>.\<close>

definition chdir :: "path \<Rightarrow> world \<Rightarrow> (error + unit) \<times> world" where
  "chdir p w =
     (let k = abs_key w p in
      if is_dir w k then (Inr (), w\<lparr>cwd := k\<rparr>)
      else if list_ex (is_file w) (prefixes k) then (Inl NotADirectoryError, w)
      else (Inl FileNotFoundError, w))"

text \<open>
  \<^verbatim>\<open>os.walk(start)\<close> visits a directory before its subdirectories: it yields the files
  of the directory in the order of its listing, then walks each subdirectory in turn.
  The table of files gives the order in which a listing shows files, the table of
  directories the order in which it shows subdirectories. The rank of a file holds one
  number for every directory on the way from \<open>root\<close> down to the file, greater than the
  number of any file, and then the number of the file itself; the walk meets the files in
  the order of their ranks.
\<close>

definition position :: "'a \<Rightarrow> 'a list \<Rightarrow> nat" where
  "position x xs = length (takeWhile (\<lambda>y. y \<noteq> x) xs)"

definition walk_rank :: "world \<Rightarrow> fpath \<Rightarrow> fpath \<Rightarrow> nat list" where
  "walk_rank w root k =
     map (\<lambda>d. length (fs_files w) + position d (fs_dirs w))
       (filter (strict_prefix root) (butlast (prefixes k)))
     @ [position k (map fst (fs_files w))]"

text \<open>
  \<^verbatim>\<open>os.walk(start)\<close>, flattened to what the two loops of the program use: for every regular
  file below \<open>start\<close>, the components of \<^verbatim>\<open>Path(directory) / filename\<close> after those
  of \<open>start\<close>, so that the file's path is \<open>path_join start rel\<close>. Nothing is yielded when
  \<open>start\<close> is not a directory.
\<close>

definition os_walk :: "world \<Rightarrow> path \<Rightarrow> string list list" where
  "os_walk w start =
     (let root = abs_key w start in
      if is_dir w root
      then map (drop (length root))
             (sort_key (walk_rank w root) (filter (strict_prefix root) (map fst (fs_files w))))
      else [])"

definition print_out :: "string \<Rightarrow> world \<Rightarrow> world" where
  "print_out s w = w\<lparr>stdout := stdout w @ [s]\<rparr>"

definition print_err :: "string \<Rightarrow> world \<Rightarrow> world" where
  "print_err s w = w\<lparr>stderr := stderr w @ [s]\<rparr>"

section \<open>The program\<close>

text \<open>
  The context manager \<^verbatim>\<open>cd\<close>: remember the working directory, change to \<open>p\<close>, run the
  body, and change back in the \<^verbatim>\<open>finally\<close> clause whether the body raised or not.
\<close>

definition cd :: "path \<Rightarrow> (world \<Rightarrow> (error + 'a) \<times> world) \<Rightarrow> world \<Rightarrow> (error + 'a) \<times> world"
  where
  "cd p body w =
     (let old_path = Path_cwd w in
      case chdir p w of
        (Inl e, w1) \<Rightarrow> (Inl e, w1)
      | (Inr _, w1) \<Rightarrow>
          (case body w1 of
             (r, w2) \<Rightarrow>
               (case chdir old_path w2 of
                  (Inl e, w3) \<Rightarrow> (Inl e, w3)
                | (Inr _, w3) \<Rightarrow> (r, w3))))"

definition generate_checksum :: "env \<Rightarrow> world \<Rightarrow> path \<Rightarrow> string \<Rightarrow> error + string" where
  "generate_checksum E w filename alg =
     (case read_file w filename of
        Inl e \<Rightarrow> Inl e
      | Inr file_bytes \<Rightarrow>
          (case digest E alg file_bytes of
             None \<Rightarrow> Inl (ValueError (''unsupported hash type '' @ alg))
           | Some h \<Rightarrow> Inr h))"

text \<open>
  \<^verbatim>\<open>tar.add(str(path))\<close> for every path: the member is named by the string without
  leading slashes and holds the file's content; \<^verbatim>\<open>tarfile\<close> skips the archive itself.
\<close>

fun tar_add_all ::
  "world \<Rightarrow> fpath \<Rightarrow> path list \<Rightarrow> (string \<times> bytes) list \<Rightarrow> error + (string \<times> bytes) list"
  where
  "tar_add_all w tar_key [] members = Inr members"
| "tar_add_all w tar_key (p # ps) members =
     (let name = str_of_path p in
      if abs_key w (path_of_str name) = tar_key then tar_add_all w tar_key ps members
      else
        case read_file w (path_of_str name) of
          Inl e \<Rightarrow> Inl e
        | Inr b \<Rightarrow>
            tar_add_all w tar_key ps
              (members @ [(dropWhile (\<lambda>c. c = CHR ''/'') name, b)]))"

text \<open>
  \<^verbatim>\<open>tar_files\<close>: opening the archive for writing creates (or empties) it; leaving the
  \<^verbatim>\<open>with\<close> block writes the finished archive. When adding a member raises, the
  archive stays unfinished (empty, in the model).
\<close>

definition tar_files :: "env \<Rightarrow> path \<Rightarrow> path list \<Rightarrow> world \<Rightarrow> (error + unit) \<times> world" where
  "tar_files E output_path paths w =
     (let tar_path = path_of_str (str_of_path output_path @ ''.tar.gz'') in
      case write_file tar_path [] w of
        (Inl e, w1) \<Rightarrow> (Inl e, w1)
      | (Inr _, w1) \<Rightarrow>
          (case tar_add_all w1 (abs_key w1 tar_path) paths [] of
             Inl e \<Rightarrow> (Inl e, w1)
           | Inr members \<Rightarrow> write_file tar_path (tar_pack E members) w1))"

subsection \<open>Writing the manifest\<close>

text \<open>
  \<^verbatim>\<open>json.dump(manifest, f, sort_keys=True, indent=4)\<close>: the items of an object are
  written in the order of their keys, every item on a line of its own, four spaces deeper
  than the enclosing bracket; strings are escaped to ASCII.
\<close>

datatype json =
    JString string
  | JInt int
  | JArray "json list"
  | JObject "(string \<times> json) list"

definition escape_char :: "char \<Rightarrow> string" where
  "escape_char c =
     (if c = CHR 0x22 then [CHR 0x5C, CHR 0x22]
      else if c = CHR 0x5C then [CHR 0x5C, CHR 0x5C]
      else if c = CHR 0x0A then [CHR 0x5C, CHR ''n'']
      else if c = CHR 0x0D then [CHR 0x5C, CHR ''r'']
      else if c = CHR 0x09 then [CHR 0x5C, CHR ''t'']
      else if c = CHR 0x08 then [CHR 0x5C, CHR ''b'']
      else if c = CHR 0x0C then [CHR 0x5C, CHR ''f'']
      else if 32 \<le> (of_char c :: nat) \<and> (of_char c :: nat) \<le> 126 then [c]
      else [CHR 0x5C, CHR ''u'', CHR ''0'', CHR ''0'',
            hex_digit (of_char c div 16), hex_digit (of_char c mod 16)])"

definition encode_basestring_ascii :: "string \<Rightarrow> string" where
  "encode_basestring_ascii s = [CHR 0x22] @ concat (map escape_char s) @ [CHR 0x22]"

fun str_of_nat :: "nat \<Rightarrow> string" where
  "str_of_nat n =
     (if n < 10 then [hex_digit n] else str_of_nat (n div 10) @ [hex_digit (n mod 10)])"

definition str_of_int :: "int \<Rightarrow> string" where
  "str_of_int i = (if i < 0 then ''-'' @ str_of_nat (nat (- i)) else str_of_nat (nat i))"

definition newline_indent :: "nat \<Rightarrow> string" where
  "newline_indent lvl = CHR 0x0A # replicate (4 * lvl) CHR '' ''"

fun json_dumps :: "nat \<Rightarrow> json \<Rightarrow> string" where
  "json_dumps lvl (JString s) = encode_basestring_ascii s"
| "json_dumps lvl (JInt i) = str_of_int i"
| "json_dumps lvl (JArray xs) =
     (if xs = [] then ''[]''
      else ''['' @ newline_indent (lvl + 1) @
           join_sep ('','' @ newline_indent (lvl + 1)) (map (json_dumps (lvl + 1)) xs) @
           newline_indent lvl @ '']'')"
| "json_dumps lvl (JObject kvs) =
     (if kvs = [] then ''{}''
      else ''{'' @ newline_indent (lvl + 1) @
           join_sep ('','' @ newline_indent (lvl + 1))
             (map (\<lambda>(k, s). encode_basestring_ascii k @ '': '' @ s)
                (sort_key fst (map (\<lambda>(k, v). (k, json_dumps (lvl + 1) v)) kvs))) @
           newline_indent lvl @ ''}'')"

text \<open>The manifest as the dictionary the program builds, keys in the order it inserts them.\<close>

definition json_of_manifest_file :: "ManifestFile \<Rightarrow> json" where
  "json_of_manifest_file f =
     JObject [(''path'', JString (path f)), (''checksum'', JString (file_checksum f))]"

definition json_of_manifest :: "Manifest \<Rightarrow> json" where
  "json_of_manifest m =
     JObject
       [(''archive_name'', JString (archive_name m)),
        (''checksum'', JString (checksum m)),
        (''checksum_algorithm'', JString (checksum_algorithm m)),
        (''creation_time'', JInt (creation_time m)),
        (''files'', JArray (map json_of_manifest_file (files m)))]"

definition json_dump :: "Manifest \<Rightarrow> string" where
  "json_dump m = json_dumps 0 (json_of_manifest m)"

subsection \<open>\<^verbatim>\<open>cmd_backup\<close>\<close>

text \<open>
  The loop over \<^verbatim>\<open>os.walk(args.path)\<close>: for every file, its path relative to the working
  directory (\<^verbatim>\<open>ValueError\<close> when the file is not below it), then its checksum; the
  accumulator holds \<^verbatim>\<open>paths_to_backup\<close> and \<^verbatim>\<open>manifest["files"]\<close>.
\<close>

fun backup_scan ::
  "env \<Rightarrow> world \<Rightarrow> path \<Rightarrow> string \<Rightarrow> string list list \<Rightarrow> path list \<times> ManifestFile list
     \<Rightarrow> error + path list \<times> ManifestFile list"
  where
  "backup_scan E w args_path alg [] acc = Inr acc"
| "backup_scan E w args_path alg (rel # rest) (paths_to_backup, manifest_files) =
     (let file_path = path_join args_path rel in
      case relative_to (resolve w file_path) (Path_cwd w) of
        Inl e \<Rightarrow> Inl e
      | Inr relative_path \<Rightarrow>
          (case generate_checksum E w file_path alg of
             Inl e \<Rightarrow> Inl e
           | Inr c \<Rightarrow>
               backup_scan E w args_path alg rest
                 (paths_to_backup @ [relative_path],
                  manifest_files @
                    [\<lparr>path = str_of_path relative_path, file_checksum = c\<rparr>])))"

definition cmd_backup ::
  "env \<Rightarrow> path \<Rightarrow> path \<Rightarrow> string \<Rightarrow> world \<Rightarrow> (error + int) \<times> world"
  where
  "cmd_backup E args_path args_archive_name args_checksum_algorithm w =
     (let manifest =
            \<lparr>archive_name = str_of_path args_archive_name @ ''.tar.gz'',
             checksum = [],
             checksum_algorithm = args_checksum_algorithm,
             creation_time = time_now E,
             files = []\<rparr>
      in
      case backup_scan E w args_path (checksum_algorithm manifest) (os_walk w args_path)
             ([], [])
      of
        Inl e \<Rightarrow> (Inl e, w)
      | Inr (paths_to_backup, manifest_files) \<Rightarrow>
          (case tar_files E args_archive_name paths_to_backup w of
             (Inl e, w1) \<Rightarrow> (Inl e, w1)
           | (Inr _, w1) \<Rightarrow>
               (case generate_checksum E w1 (path_of_str (archive_name manifest))
                       (checksum_algorithm manifest)
                of
                  Inl e \<Rightarrow> (Inl e, w1)
                | Inr c \<Rightarrow>
                    (case write_file
                            (path_of_str (str_of_path args_archive_name @ ''.manifest''))
                            (json_dump (manifest\<lparr>files := manifest_files, checksum := c\<rparr>))
                            w1
                     of
                       (Inl e, w2) \<Rightarrow> (Inl e, w2)
                     | (Inr _, w2) \<Rightarrow> (Inr EX_OK, w2)))))"

subsection \<open>\<^verbatim>\<open>cmd_restore\<close>\<close>

text \<open>
  \<^verbatim>\<open>tarfile.open(name, "r:gz")\<close> with \<^verbatim>\<open>tar.getmembers()\<close>: the members of the archive,
  read when it is opened.
\<close>

definition tarfile_open :: "env \<Rightarrow> world \<Rightarrow> string \<Rightarrow> error + (string \<times> bytes) list" where
  "tarfile_open E w name =
     (case read_file w (path_of_str name) of
        Inl e \<Rightarrow> Inl e
      | Inr b \<Rightarrow>
          (case tar_unpack E b of
             None \<Rightarrow> Inl ReadError
           | Some members \<Rightarrow> Inr members))"

definition is_within_directory :: "world \<Rightarrow> string \<Rightarrow> string \<Rightarrow> bool" where
  "is_within_directory w directory target =
     (let abs_directory = os_path_abspath w directory;
          abs_target = os_path_abspath w target;
          pre = commonprefix [abs_directory, abs_target]
      in pre = abs_directory)"

text \<open>The first loop of \<^verbatim>\<open>safe_extract\<close>: every member is checked before any is written.\<close>

fun check_members :: "world \<Rightarrow> string \<Rightarrow> (string \<times> bytes) list \<Rightarrow> error + unit" where
  "check_members w dir [] = Inr ()"
| "check_members w dir (member # members) =
     (let member_path = os_path_join dir (fst member) in
      if \<not> is_within_directory w dir member_path
      then Inl (Exception ''Attempted Path Traversal in Tar File'')
      else check_members w dir members)"

text \<open>
  \<^verbatim>\<open>tar.extractall(path)\<close>: each member is written to \<^verbatim>\<open>os.path.join(path, name)\<close>, the
  directories above it being created when they are missing; a later member replaces an
  earlier one of the same name, and an error stops the extraction where it is. The
  destination is resolved like every path of the model, so a \<^verbatim>\<open>..\<close> inside a member name
  steps back without the directory before it being created or looked up.
\<close>

fun makedirs :: "fpath list \<Rightarrow> world \<Rightarrow> (error + unit) \<times> world" where
  "makedirs [] w = (Inr (), w)"
| "makedirs (d # ds) w =
     (if is_dir w d then makedirs ds w
      else if is_file w d then (Inl NotADirectoryError, w)
      else makedirs ds (w\<lparr>fs_dirs := fs_dirs w @ [d]\<rparr>))"

definition extract_member :: "string \<Rightarrow> string \<times> bytes \<Rightarrow> world \<Rightarrow> (error + unit) \<times> world"
  where
  "extract_member dir member w =
     (let targetpath = path_of_str (os_path_join dir (fst member)) in
      case makedirs (prefixes (butlast (abs_key w targetpath))) w of
        (Inl e, w1) \<Rightarrow> (Inl e, w1)
      | (Inr _, w1) \<Rightarrow> write_file targetpath (snd member) w1)"

fun extractall :: "string \<Rightarrow> (string \<times> bytes) list \<Rightarrow> world \<Rightarrow> (error + unit) \<times> world" where
  "extractall dir [] w = (Inr (), w)"
| "extractall dir (member # members) w =
     (case extract_member dir member w of
        (Inl e, w1) \<Rightarrow> (Inl e, w1)
      | (Inr _, w1) \<Rightarrow> extractall dir members w1)"

definition safe_extract :: "(string \<times> bytes) list \<Rightarrow> world \<Rightarrow> (error + unit) \<times> world" where
  "safe_extract tar w =
     (case check_members w ''.'' tar of
        Inl e \<Rightarrow> (Inl e, w)
      | Inr _ \<Rightarrow> extractall ''.'' tar w)"

text \<open>
  \<^verbatim>\<open>path_checksums\<close>, a dictionary: a path listed twice keeps its first position and its
  last checksum.
\<close>

definition path_checksums_of :: "Manifest \<Rightarrow> (string \<times> string) list" where
  "path_checksums_of manifest =
     foldl (\<lambda>d f. AList.update (path f) (file_checksum f) d) [] (files manifest)"

text \<open>
  The loop over \<^verbatim>\<open>os.walk(args.path)\<close> after the extraction; the accumulator holds
  \<^verbatim>\<open>bad_checksums\<close> (a dictionary keyed by relative path) and \<^verbatim>\<open>restored_paths\<close> (a set).
  The checksum is that of \<^verbatim>\<open>relative_path\<close>, opened as it stands.
\<close>

fun reconcile_scan ::
  "env \<Rightarrow> world \<Rightarrow> path \<Rightarrow> string \<Rightarrow> (string \<times> string) list \<Rightarrow> string list list
     \<Rightarrow> (path \<times> ChecksumMismatch) list \<times> string list
     \<Rightarrow> error + (path \<times> ChecksumMismatch) list \<times> string list"
  where
  "reconcile_scan E w args_path alg path_checksums [] acc = Inr acc"
| "reconcile_scan E w args_path alg path_checksums (rel # rest) (bad_checksums, restored_paths) =
     (case relative_to (path_join args_path rel) args_path of
        Inl e \<Rightarrow> Inl e
      | Inr relative_path \<Rightarrow>
          (let relative_path_str = str_of_path relative_path in
           case map_of path_checksums relative_path_str of
             None \<Rightarrow>
               reconcile_scan E w args_path alg path_checksums rest
                 (bad_checksums, restored_paths)
           | Some expected_checksum \<Rightarrow>
               (case generate_checksum E w relative_path alg of
                  Inl e \<Rightarrow> Inl e
                | Inr generated_checksum \<Rightarrow>
                    if generated_checksum \<noteq> expected_checksum
                    then
                      reconcile_scan E w args_path alg path_checksums rest
                        (AList.update relative_path
                           \<lparr>generated = generated_checksum, expected = expected_checksum\<rparr>
                           bad_checksums,
                         restored_paths)
                    else
                      reconcile_scan E w args_path alg path_checksums rest
                        (bad_checksums, List.insert relative_path_str restored_paths))))"

text \<open>
  The reconciliation: \<^verbatim>\<open>bad_checksums\<close>, \<^verbatim>\<open>restored_paths\<close> and \<^verbatim>\<open>missing_paths\<close>, the
  manifest's paths that are not in \<^verbatim>\<open>restored_paths\<close>.
\<close>

definition reconcile ::
  "env \<Rightarrow> Manifest \<Rightarrow> path \<Rightarrow> world
     \<Rightarrow> error + (path \<times> ChecksumMismatch) list \<times> string list \<times> string list"
  where
  "reconcile E manifest args_path w =
     (let path_checksums = path_checksums_of manifest in
      case reconcile_scan E w args_path (checksum_algorithm manifest) path_checksums
             (os_walk w args_path) ([], [])
      of
        Inl e \<Rightarrow> Inl e
      | Inr (bad_checksums, restored_paths) \<Rightarrow>
          Inr (bad_checksums, restored_paths,
               filter (\<lambda>path_str. path_str \<notin> set restored_paths) (map fst path_checksums)))"

definition mismatch_message :: "path \<times> ChecksumMismatch \<Rightarrow> string" where
  "mismatch_message pm =
     str_of_path (fst pm) @ '': expected '' @ expected (snd pm) @ '', got '' @
       generated (snd pm)"

definition report ::
  "(path \<times> ChecksumMismatch) list \<Rightarrow> string list \<Rightarrow> world \<Rightarrow> (error + int) \<times> world"
  where
  "report bad_checksums missing_paths w =
     (let w1 =
            (if bad_checksums \<noteq> []
             then print_err
                    (''Bad checksums: '' @
                       join_sep [CHR 0x0A]
                         (map mismatch_message (sort_key (\<lambda>pm. parts (fst pm)) bad_checksums)))
                    w
             else w);
          w2 =
            (if missing_paths \<noteq> []
             then print_err (''Missing paths: '' @ join_sep '', '' (sort missing_paths)) w1
             else w1);
          failed = (bad_checksums \<noteq> [] \<or> missing_paths \<noteq> [])
      in
      if failed then (Inr EX_DATAERR, print_err ''Backup restoration failed'' w2)
      else (Inr EX_OK, print_out ''Backup restored successfully'' w2))"

definition cmd_restore :: "env \<Rightarrow> path \<Rightarrow> path \<Rightarrow> world \<Rightarrow> (error + int) \<times> world" where
  "cmd_restore E args_manifest args_path w =
     (case read_file w args_manifest of
        Inl e \<Rightarrow> (Inl e, w)
      | Inr text \<Rightarrow>
          (case json_load E text of
             None \<Rightarrow> (Inl JSONDecodeError, w)
           | Some manifest \<Rightarrow>
               (case generate_checksum E w (path_of_str (archive_name manifest))
                       (checksum_algorithm manifest)
                of
                  Inl e \<Rightarrow> (Inl e, w)
                | Inr generated_checksum \<Rightarrow>
                    if generated_checksum \<noteq> checksum manifest
                    then
                      (Inr EX_DATAERR,
                       print_err
                         (''Mismatched archive checksums. Expected: '' @ checksum manifest @
                            '', generated '' @ generated_checksum)
                         w)
                    else
                      (case tarfile_open E w (archive_name manifest) of
                         Inl e \<Rightarrow> (Inl e, w)
                       | Inr tar \<Rightarrow>
                           (case cd args_path (safe_extract tar) w of
                              (Inl e, w1) \<Rightarrow> (Inl e, w1)
                            | (Inr _, w1) \<Rightarrow>
                                (case reconcile E manifest args_path w1 of
                                   Inl e \<Rightarrow> (Inl e, w1)
                                 | Inr (bad_checksums, restored_paths, missing_paths) \<Rightarrow>
                                     report bad_checksums missing_paths w1))))))"

subsection \<open>\<^verbatim>\<open>main\<close>\<close>

text \<open>
  The parsed command line (\<^verbatim>\<open>argparse\<close> itself is outside the program): one of the two
  subcommands with its arguments, or no subcommand, in which case the namespace has no
  attribute \<^verbatim>\<open>cmd\<close>.
\<close>

datatype args =
    NoCommand
  | Backup path path string
  | Restore path path

definition main :: "env \<Rightarrow> args \<Rightarrow> world \<Rightarrow> (error + int) \<times> world" where
  "main E a w =
     (case a of
        NoCommand \<Rightarrow>
          (Inr EX_USAGE,
           print_err ''Please specify a command. Run with --help for more information.'' w)
      | Backup args_path args_archive_name args_checksum_algorithm \<Rightarrow>
          cmd_backup E args_path args_archive_name args_checksum_algorithm w
      | Restore args_manifest args_path \<Rightarrow> cmd_restore E args_manifest args_path w)"

subsection \<open>Names used in the statements\<close>

text \<open>
  The two files a backup writes, and the world right after \<^verbatim>\<open>tarfile.open\<close> has created
  (or emptied) the archive.
\<close>

definition manifest_name :: "path \<Rightarrow> path" where
  "manifest_name args_archive_name = path_of_str (str_of_path args_archive_name @ ''.manifest'')"

definition tar_name :: "path \<Rightarrow> path" where
  "tar_name args_archive_name = path_of_str (str_of_path args_archive_name @ ''.tar.gz'')"

definition archive_opened :: "world \<Rightarrow> path \<Rightarrow> world" where
  "archive_opened w p = w\<lparr>fs_files := AList.update (abs_key w p) [] (fs_files w)\<rparr>"

text \<open>
  A component of a normalised path is not empty, holds no separator and is neither \<^verbatim>\<open>.\<close>
  nor \<^verbatim>\<open>..\<close>; \<open>key_str\<close> is the string of a location, as \<^verbatim>\<open>os.getcwd()\<close> returns it.
\<close>

definition clean_comp :: "string \<Rightarrow> bool" where
  "clean_comp c = (c \<noteq> [] \<and> CHR ''/'' \<notin> set c \<and> c \<noteq> ''.'' \<and> c \<noteq> ''..'')"

definition clean_key :: "fpath \<Rightarrow> bool" where
  "clean_key k = list_all clean_comp k"

definition key_str :: "fpath \<Rightarrow> string" where
  "key_str k = ''/'' @ join_sep ''/'' k"

text \<open>
  A well-formed world: every file is listed once, under a normalised path, is not a
  directory and lies in a directory; every directory lies in a directory; the working
  directory is a normalised existing directory.
\<close>

definition wf_world :: "world \<Rightarrow> bool" where
  "wf_world w =
     (distinct (map fst (fs_files w))
      \<and> list_all (\<lambda>k. clean_key k \<and> \<not> is_dir w k \<and> list_all (is_dir w) (prefixes (butlast k)))
           (map fst (fs_files w))
      \<and> list_all (\<lambda>d. clean_key d \<and> list_all (is_dir w) (prefixes d)) (fs_dirs w)
      \<and> clean_key (cwd w) \<and> is_dir w (cwd w))"

text \<open>The destination of a member when the extraction runs in directory \<open>R\<close>.\<close>

definition member_dest :: "fpath \<Rightarrow> string \<times> bytes \<Rightarrow> fpath" where
  "member_dest R member =
     resolve_from (if startswith (fst member) ''/'' then [] else R)
       (parts (path_of_str (os_path_join ''.'' (fst member))))"

text \<open>
  What a backup records of the file with components \<open>rel\<close> below \<open>src\<close>: its components
  below the working directory and its content.
\<close>

definition backup_entry :: "world \<Rightarrow> path \<Rightarrow> string list \<Rightarrow> string list \<times> bytes" where
  "backup_entry w src rel =
     (drop (length (cwd w)) (abs_key w src @ rel),
      the (map_of (fs_files w) (abs_key w src @ rel)))"

section \<open>A small world to run the program in\<close>

text \<open>
  The working directory \<^verbatim>\<open>/w\<close> holds the directory \<^verbatim>\<open>d\<close> with one file \<^verbatim>\<open>f\<close> and an
  empty directory \<^verbatim>\<open>r\<close>. The digest of the example prefixes the content with \<^verbatim>\<open>h:\<close>;
  the archives \<^verbatim>\<open>T\<close> (the member \<^verbatim>\<open>d/f\<close>), \<^verbatim>\<open>V\<close> (a member \<^verbatim>\<open>../x\<close>) and \<^verbatim>\<open>S\<close> (a
  member \<^verbatim>\<open>../rr/x\<close>) and the manifests below are the only ones the example readers know.
\<close>

definition example_manifest :: Manifest where
  "example_manifest =
     \<lparr>archive_name = ''a.tar.gz'', checksum = ''h:T'', checksum_algorithm = ''sha1'',
      creation_time = 7, files = [\<lparr>path = ''d/f'', file_checksum = ''h:x''\<rparr>]\<rparr>"

definition traversal_manifest :: Manifest where
  "traversal_manifest = example_manifest\<lparr>checksum := ''h:V''\<rparr>"

definition sibling_manifest :: Manifest where
  "sibling_manifest = example_manifest\<lparr>checksum := ''h:S''\<rparr>"

definition nested_manifest :: Manifest where
  "nested_manifest =
     example_manifest
       \<lparr>archive_name := ''d/f.tar.gz'',
        files := [\<lparr>path = ''d/f'', file_checksum = ''h:x''\<rparr>,
                  \<lparr>path = ''d/f.tar.gz'', file_checksum = ''h:z''\<rparr>]\<rparr>"

definition altered_manifest :: Manifest where
  "altered_manifest = example_manifest\<lparr>files := [\<lparr>path = ''d/f'', file_checksum = ''h:y''\<rparr>]\<rparr>"

definition example_env :: env where
  "example_env =
     \<lparr>digest = (\<lambda>alg b. if alg = ''sha1'' then Some (''h:'' @ b) else None),
      tar_pack =
        (\<lambda>ms. if ms = [(''d/f'', ''x'')] then ''T''
              else if ms = [(''../x'', ''x'')] then ''V''
              else if ms = [(''../rr/x'', ''x'')] then ''S''
              else ''U''),
      tar_unpack =
        map_of
          [(''T'', [(''d/f'', ''x'')]), (''V'', [(''../x'', ''x'')]),
           (''S'', [(''../rr/x'', ''x'')])],
      json_load =
        (\<lambda>b. List.find (\<lambda>m. json_dump m = b)
               [example_manifest, traversal_manifest, altered_manifest, sibling_manifest,
                nested_manifest]),
      time_now = 7\<rparr>"

definition example_world :: world where
  "example_world =
     \<lparr>fs_files = [([''w'', ''d'', ''f''], ''x'')],
      fs_dirs = [[''w''], [''w'', ''d''], [''w'', ''r'']],
      cwd = [''w''], stdout = [], stderr = []\<rparr>"

text \<open>The world with an archive \<open>a\<close> and a manifest \<open>m\<close> beside the directory \<^verbatim>\<open>d\<close>.\<close>

definition world_with :: "bytes \<Rightarrow> Manifest \<Rightarrow> world" where
  "world_with a m =
     example_world
       \<lparr>fs_files :=
          [([''w'', ''d'', ''f''], ''x''), ([''w'', ''a.tar.gz''], a),
           ([''w'', ''a.manifest''], json_dump m)]\<rparr>"

text \<open>
  The world after the example backup, with the source file changed and with the source file
  removed.
\<close>

definition changed_world :: world where
  "changed_world =
     (world_with ''T'' example_manifest)
       \<lparr>fs_files :=
          AList.update [''w'', ''d'', ''f''] ''y'' (fs_files (world_with ''T'' example_manifest))\<rparr>"

definition removed_world :: world where
  "removed_world =
     (world_with ''T'' example_manifest)
       \<lparr>fs_files :=
          AList.delete [''w'', ''d'', ''f''] (fs_files (world_with ''T'' example_manifest))\<rparr>"

text \<open>The world after the archive \<^verbatim>\<open>T\<close> has been extracted into \<^verbatim>\<open>/w/r\<close>.\<close>

definition extracted :: "world \<Rightarrow> world" where
  "extracted w =
     w\<lparr>fs_files := fs_files w @ [([''w'', ''r'', ''d'', ''f''], ''x'')],
       fs_dirs := fs_dirs w @ [[''w'', ''r'', ''d'']]\<rparr>"

text \<open>The example with a second file \<^verbatim>\<open>d/f.tar.gz\<close>, before and after a backup named \<^verbatim>\<open>d/f\<close>.\<close>

definition nested_world :: world where
  "nested_world =
     example_world
       \<lparr>fs_files := [([''w'', ''d'', ''f''], ''x''), ([''w'', ''d'', ''f.tar.gz''], ''z'')]\<rparr>"

definition nested_backup_world :: world where
  "nested_backup_world =
     example_world
       \<lparr>fs_files :=
          [([''w'', ''d'', ''f''], ''x''), ([''w'', ''d'', ''f.tar.gz''], ''T''),
           ([''w'', ''d'', ''f.manifest''], json_dump nested_manifest)]\<rparr>"

text \<open>
  The world after the extraction of \<^verbatim>\<open>T\<close> into \<^verbatim>\<open>/w/r\<close> when \<^verbatim>\<open>/w/d\<close> is a regular
  file.
\<close>

definition blocked_world :: world where
  "blocked_world =
     example_world
       \<lparr>fs_files :=
          [([''w'', ''d''], ''q''), ([''w'', ''a.tar.gz''], ''T''),
           ([''w'', ''a.manifest''], json_dump example_manifest),
           ([''w'', ''r'', ''d'', ''f''], ''x'')],
        fs_dirs := [[''w''], [''w'', ''r''], [''w'', ''r'', ''d'']]\<rparr>"

text \<open>A world whose only file lies outside the working directory.\<close>

definition outside_world :: world where
  "outside_world =
     example_world\<lparr>fs_files := [([''etc'', ''p''], ''x'')], fs_dirs := [[''etc''], [''w'']]\<rparr>"

section \<open>Basic properties of the model\<close>

subsection \<open>What the file operations leave unchanged\<close>

lemma write_file_frame:
  assumes "write_file p b w = (r, w')"
  shows "cwd w' = cwd w" "stdout w' = stdout w" "stderr w' = stderr w" "fs_dirs w' = fs_dirs w"
  using assms by (auto simp: write_file_def Let_def split: if_splits)

lemma write_file_Inl:
  assumes "write_file p b w = (Inl e, w')"
  shows "w' = w"
  using assms by (auto simp: write_file_def Let_def split: if_splits)

lemma write_file_Inr:
  assumes "write_file p b w = (Inr u, w')"
  shows "w' = w\<lparr>fs_files := AList.update (abs_key w p) b (fs_files w)\<rparr>"
  using assms by (auto simp: write_file_def Let_def split: if_splits)

lemma abs_key_cong:
  "cwd w' = cwd w \<Longrightarrow> abs_key w' p = abs_key w p"
  by (simp add: abs_key_def)

lemma makedirs_frame:
  assumes "makedirs ds w = (r, w')"
  shows "cwd w' = cwd w \<and> stdout w' = stdout w \<and> stderr w' = stderr w \<and>
         fs_files w' = fs_files w \<and> set (fs_dirs w) \<subseteq> set (fs_dirs w')"
  using assms
proof (induction ds arbitrary: w)
  case Nil
  then show ?case by simp
next
  case (Cons d ds)
  show ?case
  proof (cases "is_dir w d")
    case True
    with Cons show ?thesis by simp
  next
    case False
    show ?thesis
    proof (cases "is_file w d")
      case True
      with False Cons.prems show ?thesis by simp
    next
      case nf: False
      with False Cons.prems
      have "makedirs ds (w\<lparr>fs_dirs := fs_dirs w @ [d]\<rparr>) = (r, w')" by simp
      from Cons.IH[OF this] show ?thesis by auto
    qed
  qed
qed

lemma extract_member_frame:
  assumes "extract_member dir m w = (r, w')"
  shows "cwd w' = cwd w \<and> stdout w' = stdout w \<and> stderr w' = stderr w \<and>
         set (fs_dirs w) \<subseteq> set (fs_dirs w')"
proof -
  obtain r1 w1 where m: "makedirs (prefixes (butlast (abs_key w (path_of_str (os_path_join dir (fst m)))))) w = (r1, w1)"
    by (cases "makedirs (prefixes (butlast (abs_key w (path_of_str (os_path_join dir (fst m)))))) w")
  note f1 = makedirs_frame[OF m]
  show ?thesis
  proof (cases r1)
    case (Inl e)
    with assms m have "w' = w1" by (simp add: extract_member_def)
    with f1 show ?thesis by simp
  next
    case (Inr u)
    with assms m have "write_file (path_of_str (os_path_join dir (fst m))) (snd m) w1 = (r, w')"
      by (simp add: extract_member_def)
    from write_file_frame[OF this] f1 show ?thesis by simp
  qed
qed

lemma extractall_frame:
  assumes "extractall dir ms w = (r, w')"
  shows "cwd w' = cwd w \<and> stdout w' = stdout w \<and> stderr w' = stderr w \<and>
         set (fs_dirs w) \<subseteq> set (fs_dirs w')"
  using assms
proof (induction ms arbitrary: w)
  case Nil
  then show ?case by simp
next
  case (Cons m ms)
  obtain r1 w1 where e: "extract_member dir m w = (r1, w1)"
    by (cases "extract_member dir m w")
  note f1 = extract_member_frame[OF e]
  show ?case
  proof (cases r1)
    case (Inl e')
    with Cons.prems e have "w' = w1" by simp
    with f1 show ?thesis by simp
  next
    case (Inr u)
    with Cons.prems e have "extractall dir ms w1 = (r, w')" by simp
    from Cons.IH[OF this] f1 show ?thesis by auto
  qed
qed

lemma safe_extract_frame:
  assumes "safe_extract tar w = (r, w')"
  shows "cwd w' = cwd w \<and> stdout w' = stdout w \<and> stderr w' = stderr w \<and>
         set (fs_dirs w) \<subseteq> set (fs_dirs w')"
proof (cases "check_members w ''.'' tar")
  case (Inl e)
  with assms show ?thesis by (simp add: safe_extract_def)
next
  case (Inr u)
  with assms have "extractall ''.'' tar w = (r, w')" by (simp add: safe_extract_def)
  from extractall_frame[OF this] show ?thesis .
qed

lemma chdir_cases:
  "chdir p w = (Inr (), w\<lparr>cwd := abs_key w p\<rparr>) \<and> is_dir w (abs_key w p)
   \<or> (\<exists>e. chdir p w = (Inl e, w)) \<and> \<not> is_dir w (abs_key w p)"
  by (simp add: chdir_def Let_def)

lemma resolve_from_clean:
  "''..'' \<notin> set cs \<Longrightarrow> resolve_from acc cs = acc @ cs"
  by (induction cs arbitrary: acc) auto

lemma cd_result:
  assumes "is_dir w (abs_key w p)"
    and "body (w\<lparr>cwd := abs_key w p\<rparr>) = (r, w2)"
    and "is_dir w2 (cwd w)" and "''..'' \<notin> set (cwd w)"
  shows "cd p body w = (r, w2\<lparr>cwd := cwd w\<rparr>)"
  using assms
  by (simp add: cd_def chdir_def Let_def Path_cwd_def abs_key_def resolve_from_clean)

lemma cd_chdir_fails:
  assumes "\<not> is_dir w (abs_key w p)"
  shows "\<exists>e. cd p body w = (Inl e, w)"
  using assms by (simp add: cd_def chdir_def Let_def)

lemma is_dir_cwd_update [simp]: "is_dir (w\<lparr>cwd := k\<rparr>) d = is_dir w d"
  by (simp add: is_dir_def)

lemma is_dir_mono:
  "set (fs_dirs w) \<subseteq> set (fs_dirs w') \<Longrightarrow> is_dir w d \<Longrightarrow> is_dir w' d"
  by (auto simp: is_dir_def)

lemma cd_cwd:
  assumes "is_dir w (cwd w)" and "''..'' \<notin> set (cwd w)"
    and "\<And>w1. is_dir w1 (cwd w) \<Longrightarrow> is_dir (snd (body w1)) (cwd w)"
  shows "cwd (snd (cd p body w)) = cwd w"
proof (cases "is_dir w (abs_key w p)")
  case False
  from cd_chdir_fails[OF this, of body] show ?thesis by auto
next
  case True
  obtain r w2 where b: "body (w\<lparr>cwd := abs_key w p\<rparr>) = (r, w2)"
    by (cases "body (w\<lparr>cwd := abs_key w p\<rparr>)")
  have "is_dir (snd (body (w\<lparr>cwd := abs_key w p\<rparr>))) (cwd w)"
    using assms(1) by (intro assms(3)) simp
  with b have "is_dir w2 (cwd w)" by simp
  from cd_result[where body = body, OF True b this assms(2)] show ?thesis by simp
qed

lemma safe_extract_keeps_dir:
  "is_dir w1 d \<Longrightarrow> is_dir (snd (safe_extract tar w1)) d"
  using safe_extract_frame[of tar w1 "fst (safe_extract tar w1)" "snd (safe_extract tar w1)"]
  by (auto intro: is_dir_mono)

lemma report_frame:
  assumes "report bad missing w = (r, w')"
  shows "cwd w' = cwd w \<and> fs_files w' = fs_files w \<and> fs_dirs w' = fs_dirs w"
  using assms by (auto simp: report_def Let_def print_err_def print_out_def split: if_splits)

lemma cmd_restore_world:
  assumes "cmd_restore E am ap w = (r, w')"
  shows "w' = w \<or> (\<exists>msg. w' = print_err msg w)
         \<or> (\<exists>tar r1 w1. cd ap (safe_extract tar) w = (r1, w1) \<and>
               (w' = w1 \<or> (\<exists>bad missing. report bad missing w1 = (r, w'))))"
  using assms
  by (auto simp: cmd_restore_def split: sum.splits option.splits prod.splits if_splits)

lemma cmd_restore_cwd:
  assumes "is_dir w (cwd w)" and "''..'' \<notin> set (cwd w)"
  shows "cwd (snd (cmd_restore E am ap w)) = cwd w"
proof -
  have cdc: "cwd w1 = cwd w" if "cd ap (safe_extract tar) w = (r1, w1)" for tar r1 w1
  proof -
    have "cwd (snd (cd ap (safe_extract tar) w)) = cwd w"
      using assms by (rule cd_cwd) (rule safe_extract_keeps_dir)
    with that show ?thesis by simp
  qed
  obtain r w' where c: "cmd_restore E am ap w = (r, w')"
    by (cases "cmd_restore E am ap w")
  from cmd_restore_world[OF c] have "cwd w' = cwd w"
    using cdc report_frame by (fastforce simp: print_err_def)
  with c show ?thesis by simp
qed

subsection \<open>The path guard\<close>

lemma longest_common_prefix_commute:
  "longest_common_prefix xs ys = longest_common_prefix ys xs"
  by (induction xs ys rule: longest_common_prefix.induct) auto

lemma commonprefix_pair: "commonprefix [a, b] = longest_common_prefix a b"
proof (cases "a \<le> b")
  case True
  then have "Min (set [a, b]) = a" "Max (set [a, b]) = b" by (auto simp: min_def max_def)
  then show ?thesis by (simp add: commonprefix_def)
next
  case False
  then have "b \<le> a" by simp
  then have "Min (set [a, b]) = b" "Max (set [a, b]) = a" by (auto simp: min_def max_def)
  then show ?thesis by (simp add: commonprefix_def longest_common_prefix_commute[of b a])
qed

lemma is_within_directory_iff:
  "is_within_directory w directory target =
     prefix (os_path_abspath w directory) (os_path_abspath w target)"
proof -
  have "longest_common_prefix a b = a \<longleftrightarrow> prefix a b" for a b :: string
    by (metis longest_common_prefix_max_prefix longest_common_prefix_prefix1
        longest_common_prefix_prefix2 prefix_order.dual_order.refl prefix_order.eq_iff)
  then show ?thesis by (simp add: is_within_directory_def commonprefix_pair Let_def)
qed

subsection \<open>Running the example\<close>

lemmas example_defs = example_env_def example_world_def example_manifest_def world_with_def
  traversal_manifest_def altered_manifest_def sibling_manifest_def nested_manifest_def

lemmas eval_defs = read_file_def write_file_def abs_key_def path_of_str_def str_of_path_def
  startswith_def is_dir_def is_file_def generate_checksum_def os_walk_def walk_rank_def
  position_def path_join_def
  relative_to_def repr_def repr_char_def resolve_def Path_cwd_def tar_files_def Let_def

lemmas json_defs = json_dump_def json_of_manifest_def json_of_manifest_file_def
  encode_basestring_ascii_def newline_indent_def escape_char_def str_of_int_def hex_digit_def

lemmas restore_defs = cmd_restore_def tarfile_open_def cd_def chdir_def safe_extract_def
  is_within_directory_iff os_path_abspath_def os_path_join_def os_getcwd_def normpath_def
  extract_member_def reconcile_def path_checksums_of_def report_def print_err_def print_out_def
  mismatch_message_def

lemma json_load_example:
  "json_load example_env (json_dump example_manifest) = Some example_manifest"
  by (simp add: example_env_def)

lemma json_load_traversal:
  "json_load example_env (json_dump traversal_manifest) = Some traversal_manifest"
  by (simp add: example_defs json_defs)

lemma json_load_sibling:
  "json_load example_env (json_dump sibling_manifest) = Some sibling_manifest"
  by (simp add: example_defs json_defs)

lemma json_load_altered:
  "json_load example_env (json_dump altered_manifest) = Some altered_manifest"
  by (simp add: example_defs json_defs)

section \<open>Restore: the archive checksum\<close>

text \<open>
  C4. When the checksum recomputed over the archive, with the algorithm the manifest names,
  differs from the manifest's \<^verbatim>\<open>checksum\<close>, \<^verbatim>\<open>cmd_restore\<close> prints one message holding both
  digests on the error stream and returns \<^verbatim>\<open>EX_DATAERR\<close>; the world is otherwise as it was:
  no file and no directory is created, changed or removed, and the working directory is
  not changed.
\<close>

theorem restore_archive_checksum_mismatch:
  assumes "read_file w args_manifest = Inr text"
    and "json_load E text = Some manifest"
    and "generate_checksum E w (path_of_str (archive_name manifest))
           (checksum_algorithm manifest) = Inr generated_checksum"
    and "generated_checksum \<noteq> checksum manifest"
  shows "cmd_restore E args_manifest args_path w =
           (Inr EX_DATAERR,
            w\<lparr>stderr := stderr w @
                 [''Mismatched archive checksums. Expected: '' @ checksum manifest @
                  '', generated '' @ generated_checksum]\<rparr>)"
  using assms by (simp add: cmd_restore_def print_err_def)

theorem restore_archive_checksum_mismatch_witness:
  "read_file (world_with ''V'' example_manifest) (Path False [''a.manifest'']) =
     Inr (json_dump example_manifest)
   \<and> json_load example_env (json_dump example_manifest) = Some example_manifest
   \<and> generate_checksum example_env (world_with ''V'' example_manifest)
        (path_of_str (archive_name example_manifest))
        (checksum_algorithm example_manifest) = Inr ''h:V''
   \<and> ''h:V'' \<noteq> checksum example_manifest
   \<and> cmd_restore example_env (Path False [''a.manifest'']) (Path False [''r''])
        (world_with ''V'' example_manifest) =
       (Inr EX_DATAERR,
        (world_with ''V'' example_manifest)
          \<lparr>stderr := [''Mismatched archive checksums. Expected: h:T, generated h:V'']\<rparr>)"
proof -
  let ?w = "world_with ''V'' example_manifest"
  have h1: "read_file ?w (Path False [''a.manifest'']) = Inr (json_dump example_manifest)"
    by (simp add: read_file_def abs_key_def world_with_def example_world_def)
  have h3: "generate_checksum example_env ?w (path_of_str (archive_name example_manifest))
              (checksum_algorithm example_manifest) = Inr ''h:V''"
    by (simp add: example_defs eval_defs)
  have h4: "''h:V'' \<noteq> checksum example_manifest"
    by (simp add: example_manifest_def)
  from restore_archive_checksum_mismatch
         [OF h1 json_load_example h3 h4, of "Path False [''r'']"]
       h1 json_load_example h3 h4
  show ?thesis
    by (simp add: example_manifest_def world_with_def example_world_def)
qed

section \<open>Restore: the scoped change of directory\<close>

text \<open>
  C8. In a world whose working directory exists and is normalised (as \<^verbatim>\<open>Path.cwd()\<close>
  returns it), \<^verbatim>\<open>cd\<close> leaves the working directory as it found it, whatever its body
  returns or raises, as long as the body does not remove that directory; the extraction is
  such a body, and so the working directory after \<^verbatim>\<open>cmd_restore\<close>, whether it returns or
  raises, is the one before.
\<close>

theorem cd_restores_working_directory:
  assumes "is_dir w (cwd w)" and "''..'' \<notin> set (cwd w)"
  shows "(\<forall>body :: world \<Rightarrow> (error + unit) \<times> world.
            (\<forall>w1. is_dir w1 (cwd w) \<longrightarrow> is_dir (snd (body w1)) (cwd w)) \<longrightarrow>
            cwd (snd (cd p body w)) = cwd w)
         \<and> cwd (snd (cd p (safe_extract tar) w)) = cwd w
         \<and> cwd (snd (cmd_restore E args_manifest args_path w)) = cwd w"
  using cd_cwd[OF assms] cmd_restore_cwd[OF assms] safe_extract_keeps_dir
  by blast

theorem cd_restores_working_directory_witness:
  "is_dir (world_with ''V'' traversal_manifest) (cwd (world_with ''V'' traversal_manifest))
   \<and> ''..'' \<notin> set (cwd (world_with ''V'' traversal_manifest))
   \<and> fst (cd (Path False [''r'']) (safe_extract [(''../x'', ''x'')])
            (world_with ''V'' traversal_manifest)) =
       Inl (Exception ''Attempted Path Traversal in Tar File'')
   \<and> cwd (snd (cd (Path False [''r'']) (safe_extract [(''../x'', ''x'')])
            (world_with ''V'' traversal_manifest))) = [''w'']
   \<and> cwd (snd (cmd_restore example_env (Path False [''a.manifest'']) (Path False [''r''])
            (world_with ''V'' traversal_manifest))) = [''w'']"
proof -
  let ?w = "world_with ''V'' traversal_manifest"
  have h1: "is_dir ?w (cwd ?w)"
    by (simp add: world_with_def example_world_def is_dir_def)
  have h2: "''..'' \<notin> set (cwd ?w)"
    by (simp add: world_with_def example_world_def)
  have c: "cwd ?w = [''w'']"
    by (simp add: world_with_def example_world_def)
  have r: "fst (cd (Path False [''r'']) (safe_extract [(''../x'', ''x'')]) ?w) =
             Inl (Exception ''Attempted Path Traversal in Tar File'')"
    by (simp add: world_with_def example_world_def eval_defs restore_defs)
  from cd_restores_working_directory
         [OF h1 h2, of "Path False [''r'']" "[(''../x'', ''x'')]" example_env
            "Path False [''a.manifest'']" "Path False [''r'']"]
       h1 h2 r c
  show ?thesis by simp
qed

section \<open>Backup\<close>

subsection \<open>Path strings with a suffix\<close>

lemma split_sep_not_Nil [simp]: "split_sep s \<noteq> []"
  by (induction s) auto

lemma split_sep_no_slash: "CHR ''/'' \<notin> set t \<Longrightarrow> split_sep t = [t]"
  by (induction t) auto

lemma split_sep_append:
  "CHR ''/'' \<notin> set t \<Longrightarrow>
   split_sep (s @ t) = butlast (split_sep s) @ [last (split_sep s) @ t]"
proof (induction s)
  case Nil
  then show ?case by (simp add: split_sep_no_slash)
next
  case (Cons c s)
  then have IH: "split_sep (s @ t) = butlast (split_sep s) @ [last (split_sep s) @ t]"
    by simp
  show ?case
  proof (cases "split_sep s")
    case Nil
    then show ?thesis by simp
  next
    case (Cons x xs)
    then show ?thesis using IH by (cases xs) auto
  qed
qed

lemma resolve_from_append:
  "resolve_from acc (xs @ ys) = resolve_from (resolve_from acc xs) ys"
  by (induction xs arbitrary: acc) auto

lemma abs_key_suffix:
  assumes "CHR ''/'' \<notin> set t" and "2 < length t"
  shows "abs_key w (path_of_str (s @ t)) =
           resolve_from (if startswith s ''/'' then [] else cwd w)
             (filter (\<lambda>c. c \<noteq> [] \<and> c \<noteq> ''.'') (butlast (split_sep s)))
           @ [last (split_sep s) @ t]"
proof -
  let ?l = "last (split_sep s) @ t"
  have len: "2 < length ?l" using assms(2) by simp
  have ne: "?l \<noteq> []" "?l \<noteq> ''.''" "?l \<noteq> ''..''"
  proof -
    show "?l \<noteq> []" using assms(2) by auto
    show "?l \<noteq> ''.''"
    proof
      assume "?l = ''.''"
      then have "length ?l = length ''.''" by (rule arg_cong)
      with len show False by simp
    qed
    show "?l \<noteq> ''..''"
    proof
      assume "?l = ''..''"
      then have "length ?l = length ''..''" by (rule arg_cong)
      with len show False by simp
    qed
  qed
  have t: "t \<noteq> []" "hd t \<noteq> CHR ''/''" using assms by (cases t; auto)+
  have st: "startswith (s @ t) ''/'' = startswith s ''/''"
    using t by (cases s; cases t) (auto simp: startswith_def)
  show ?thesis
    using ne by (simp add: abs_key_def path_of_str_def st split_sep_append[OF assms(1)]
        resolve_from_append)
qed

lemma archive_key_neq_manifest_key:
  "abs_key w (path_of_str (s @ ''.tar.gz'')) \<noteq> abs_key w (path_of_str (s @ ''.manifest''))"
  by (simp add: abs_key_suffix)

subsection \<open>What a backup writes\<close>

lemma map_of_update_same: "map_of (AList.update k v al) k = Some v"
  by (simp add: update_conv')

lemma map_of_update_other: "k' \<noteq> k \<Longrightarrow> map_of (AList.update k v al) k' = map_of al k'"
  by (simp add: update_conv')

lemma not_prefix_butlast: "k \<noteq> [] \<Longrightarrow> \<not> prefix k (butlast k)"
proof
  assume "k \<noteq> []" and "prefix k (butlast k)"
  then have "length k \<le> length (butlast k)" by (intro prefix_length_le)
  moreover have "length (butlast k) = length k - 1" by simp
  moreover have "0 < length k" using \<open>k \<noteq> []\<close> by simp
  ultimately show False by linarith
qed

lemma tar_files_cases:
  assumes "tar_files E output_path paths w = (r, w1)"
  defines "A \<equiv> path_of_str (str_of_path output_path @ ''.tar.gz'')"
  shows "(\<exists>e. r = Inl e \<and> w1 = w)
       \<or> (\<exists>e. r = Inl e \<and> w1 = archive_opened w A)
       \<or> (\<exists>members. r = Inr () \<and>
             tar_add_all (archive_opened w A) (abs_key w A) paths [] = Inr members \<and>
             w1 = w\<lparr>fs_files := AList.update (abs_key w A) (tar_pack E members)
                                 (AList.update (abs_key w A) [] (fs_files w))\<rparr>)"
proof -
  obtain r0 w0 where o: "write_file A [] w = (r0, w0)" by (cases "write_file A [] w")
  show ?thesis
  proof (cases r0)
    case (Inl e)
    with o assms(1) write_file_Inl[of A "[]" w e w0] show ?thesis
      by (auto simp: tar_files_def A_def)
  next
    case (Inr u)
    with o have w0: "w0 = archive_opened w A"
      using write_file_Inr[of A "[]" w u w0] by (simp add: archive_opened_def)
    have k0: "abs_key w0 A = abs_key w A" by (simp add: w0 archive_opened_def abs_key_def)
    show ?thesis
    proof (cases "tar_add_all w0 (abs_key w0 A) paths []")
      case (Inl e)
      with o Inr assms(1) w0 show ?thesis by (auto simp: tar_files_def A_def)
    next
      case members: (Inr members)
      with o Inr assms(1)
      have wf: "write_file A (tar_pack E members) w0 = (r, w1)"
        by (simp add: tar_files_def A_def)
      have d: "\<not> is_dir w A'" if "write_file A [] w = (Inr u, w0)" "A' = abs_key w A" for A'
        using that by (auto simp: write_file_def Let_def split: if_splits)
      have "write_file A (tar_pack E members) w0 =
              (Inr (), w0\<lparr>fs_files := AList.update (abs_key w0 A) (tar_pack E members) (fs_files w0)\<rparr>)"
        using o Inr
        by (auto simp: write_file_def Let_def w0 archive_opened_def abs_key_def is_dir_def
            is_file_def update_conv' list_ex_iff not_prefix_butlast split: if_splits)
      with wf members k0 show ?thesis by (auto simp: w0 archive_opened_def)
    qed
  qed
qed

lemma relative_to_cwd_Inl_iff:
  "(\<exists>e. relative_to (resolve w f) (Path_cwd w) = Inl e) \<longleftrightarrow> \<not> prefix (cwd w) (abs_key w f)"
  by (simp add: relative_to_def resolve_def Path_cwd_def)

lemma backup_scan_Inr_below:
  assumes "backup_scan E w args_path alg rels acc = Inr res"
  shows "\<forall>rel \<in> set rels. prefix (cwd w) (abs_key w (path_join args_path rel))"
  using assms
proof (induction rels arbitrary: acc)
  case Nil
  then show ?case by simp
next
  case (Cons rel rest)
  obtain ps ms where acc: "acc = (ps, ms)" by (cases acc)
  from Cons.prems obtain rp where
    rp: "relative_to (resolve w (path_join args_path rel)) (Path_cwd w) = Inr rp"
    by (auto simp: acc Let_def split: sum.splits)
  then have here: "prefix (cwd w) (abs_key w (path_join args_path rel))"
    by (auto simp: relative_to_def resolve_def Path_cwd_def split: if_splits)
  from Cons.prems rp obtain acc' where
    "backup_scan E w args_path alg rest acc' = Inr res"
    by (auto simp: acc Let_def split: sum.splits)
  from Cons.IH[OF this] here show ?case by simp
qed

lemma tar_key_neq_manifest_key:
  "abs_key w (tar_name n) \<noteq> abs_key w (manifest_name n)"
  by (simp add: tar_name_def manifest_name_def archive_key_neq_manifest_key)

lemma cmd_backup_Inr:
  assumes "cmd_backup E args_path n alg w = (Inr c, w')"
  shows "\<exists>paths mfiles members ck.
           backup_scan E w args_path alg (os_walk w args_path) ([], []) = Inr (paths, mfiles)
         \<and> tar_add_all (archive_opened w (tar_name n)) (abs_key w (tar_name n)) paths [] =
             Inr members
         \<and> digest E alg (tar_pack E members) = Some ck
         \<and> c = EX_OK
         \<and> w' = w\<lparr>fs_files :=
                   AList.update (abs_key w (manifest_name n))
                     (json_dump \<lparr>archive_name = str_of_path n @ ''.tar.gz'', checksum = ck,
                                 checksum_algorithm = alg, creation_time = time_now E,
                                 files = mfiles\<rparr>)
                     (AList.update (abs_key w (tar_name n)) (tar_pack E members)
                        (AList.update (abs_key w (tar_name n)) [] (fs_files w)))\<rparr>"
proof -
  from assms obtain paths mfiles where
    scan: "backup_scan E w args_path alg (os_walk w args_path) ([], []) = Inr (paths, mfiles)"
    by (auto simp: cmd_backup_def Let_def split: sum.splits prod.splits)
  obtain r1 w1 where tf: "tar_files E n paths w = (r1, w1)" by (cases "tar_files E n paths w")
  with assms scan have r1: "r1 = Inr ()"
    by (auto simp: cmd_backup_def Let_def split: sum.splits prod.splits)
  from tar_files_cases[OF tf] r1 obtain members where
    add: "tar_add_all (archive_opened w (tar_name n)) (abs_key w (tar_name n)) paths [] =
            Inr members"
    and w1: "w1 = w\<lparr>fs_files := AList.update (abs_key w (tar_name n)) (tar_pack E members)
                                 (AList.update (abs_key w (tar_name n)) [] (fs_files w))\<rparr>"
    by (auto simp: tar_name_def)
  have k1: "abs_key w1 p = abs_key w p" for p by (simp add: w1 abs_key_def)
  have rd: "read_file w1 (tar_name n) = Inr (tar_pack E members)"
    by (simp add: read_file_def k1) (simp add: w1 map_of_update_same)
  from assms scan tf r1 obtain ck where
    gc: "generate_checksum E w1 (tar_name n) alg = Inr ck"
    by (auto simp: cmd_backup_def Let_def tar_name_def split: sum.splits prod.splits)
  with rd have dg: "digest E alg (tar_pack E members) = Some ck"
    by (auto simp: generate_checksum_def split: option.splits)
  let ?m = "\<lparr>archive_name = str_of_path n @ ''.tar.gz'', checksum = ck,
             checksum_algorithm = alg, creation_time = time_now E, files = mfiles\<rparr>"
  from assms scan tf r1 gc have
    wm: "write_file (manifest_name n) (json_dump ?m) w1 = (Inr (), w')" and c: "c = EX_OK"
    by (auto simp: cmd_backup_def Let_def tar_name_def manifest_name_def split: sum.splits prod.splits)
  from write_file_Inr[OF wm] have "w' = w1\<lparr>fs_files :=
       AList.update (abs_key w (manifest_name n)) (json_dump ?m) (fs_files w1)\<rparr>"
    by (simp add: k1)
  with scan add dg c show ?thesis by (simp add: w1)
qed

lemma cmd_backup_Inl:
  assumes "cmd_backup E args_path n alg w = (Inl e, w')"
  shows "w' = w \<or> w' = archive_opened w (tar_name n)
       \<or> (\<exists>b. w' = w\<lparr>fs_files := AList.update (abs_key w (tar_name n)) b
                                 (AList.update (abs_key w (tar_name n)) [] (fs_files w))\<rparr>)"
proof (cases "backup_scan E w args_path alg (os_walk w args_path) ([], [])")
  case (Inl e')
  with assms show ?thesis by (simp add: cmd_backup_def Let_def)
next
  case (Inr res)
  obtain paths mfiles where res: "res = (paths, mfiles)" by (cases res)
  obtain r1 w1 where tf: "tar_files E n paths w = (r1, w1)" by (cases "tar_files E n paths w")
  show ?thesis
  proof (cases r1)
    case (Inl e1)
    with assms Inr res tf have "w' = w1" by (simp add: cmd_backup_def Let_def)
    with tar_files_cases[OF tf] Inl show ?thesis by (auto simp: tar_name_def)
  next
    case r1: (Inr u)
    from tar_files_cases[OF tf] r1 obtain members where
      w1: "w1 = w\<lparr>fs_files := AList.update (abs_key w (tar_name n)) (tar_pack E members)
                                 (AList.update (abs_key w (tar_name n)) [] (fs_files w))\<rparr>"
      by (auto simp: tar_name_def)
    from assms Inr res tf r1 have "w' = w1"
      by (auto simp: cmd_backup_def Let_def split: sum.splits prod.splits dest: write_file_Inl)
    with w1 show ?thesis by blast
  qed
qed

lemma backup_example:
  "cmd_backup example_env (Path False [''d'']) (Path False [''a'']) ''sha1'' example_world =
     (Inr EX_OK, world_with ''T'' example_manifest)"
  by (simp add: cmd_backup_def example_defs eval_defs)

text \<open>
  C9. The path of every entry is computed with \<^verbatim>\<open>relative_to(cwd)\<close>, which raises exactly
  when the resolved file is not below the working directory. So a backup that returns has
  found every file below the working directory, and a backup that finds a file elsewhere
  raises, leaving the world as it was: no archive and no manifest is written.
\<close>

theorem backup_requires_files_below_cwd:
  "((\<exists>e. relative_to (resolve w f) (Path_cwd w) = Inl e) \<longleftrightarrow>
      \<not> prefix (cwd w) (abs_key w f))
   \<and> (fst (cmd_backup E args_path args_archive_name alg w) = Inr c \<longrightarrow>
        (\<forall>rel \<in> set (os_walk w args_path).
           prefix (cwd w) (abs_key w (path_join args_path rel))))
   \<and> ((\<exists>rel \<in> set (os_walk w args_path).
          \<not> prefix (cwd w) (abs_key w (path_join args_path rel))) \<longrightarrow>
        (\<exists>e. cmd_backup E args_path args_archive_name alg w = (Inl e, w)))"
proof (intro conjI impI)
  show "(\<exists>e. relative_to (resolve w f) (Path_cwd w) = Inl e) \<longleftrightarrow>
          \<not> prefix (cwd w) (abs_key w f)"
    by (rule relative_to_cwd_Inl_iff)
next
  assume "fst (cmd_backup E args_path args_archive_name alg w) = Inr c"
  then obtain w' where "cmd_backup E args_path args_archive_name alg w = (Inr c, w')"
    by (cases "cmd_backup E args_path args_archive_name alg w") simp
  from cmd_backup_Inr[OF this] obtain res where
    "backup_scan E w args_path alg (os_walk w args_path) ([], []) = Inr res"
    by blast
  then show "\<forall>rel \<in> set (os_walk w args_path).
               prefix (cwd w) (abs_key w (path_join args_path rel))"
    by (rule backup_scan_Inr_below)
next
  assume out: "\<exists>rel \<in> set (os_walk w args_path).
                 \<not> prefix (cwd w) (abs_key w (path_join args_path rel))"
  show "\<exists>e. cmd_backup E args_path args_archive_name alg w = (Inl e, w)"
  proof (cases "backup_scan E w args_path alg (os_walk w args_path) ([], [])")
    case (Inl e)
    then show ?thesis by (simp add: cmd_backup_def Let_def)
  next
    case (Inr res)
    from backup_scan_Inr_below[OF this] out show ?thesis by blast
  qed
qed

theorem backup_requires_files_below_cwd_witness:
  "[''p''] \<in> set (os_walk outside_world (Path True [''etc'']))
   \<and> \<not> prefix (cwd outside_world)
          (abs_key outside_world (path_join (Path True [''etc'']) [''p'']))
   \<and> cmd_backup example_env (Path True [''etc'']) (Path False [''a'']) ''sha1'' outside_world =
       (Inl (ValueError
          ('''/etc/p' is not in the subpath of '/w' OR one path is relative '' @
           ''and the other is absolute.'')), outside_world)
   \<and> fst (cmd_backup example_env (Path False [''d'']) (Path False [''a'']) ''sha1''
            example_world) = Inr EX_OK
   \<and> os_walk example_world (Path False [''d'']) = [[''f'']]
   \<and> prefix (cwd example_world)
        (abs_key example_world (path_join (Path False [''d'']) [''f'']))"
proof -
  have h1: "[''p''] \<in> set (os_walk outside_world (Path True [''etc'']))"
    by (simp add: outside_world_def example_world_def eval_defs)
  have h2: "\<not> prefix (cwd outside_world)
          (abs_key outside_world (path_join (Path True [''etc'']) [''p'']))"
    by (simp add: outside_world_def example_world_def eval_defs)
  have h3: "fst (cmd_backup example_env (Path False [''d'']) (Path False [''a'']) ''sha1''
            example_world) = Inr EX_OK"
    by (simp add: cmd_backup_def example_defs eval_defs)
  have h4: "os_walk example_world (Path False [''d'']) = [[''f'']]"
    by (simp add: example_world_def eval_defs)
  have ev: "fst (cmd_backup example_env (Path True [''etc'']) (Path False [''a'']) ''sha1''
              outside_world) = Inl (ValueError
          ('''/etc/p' is not in the subpath of '/w' OR one path is relative '' @
           ''and the other is absolute.''))"
    by (simp add: cmd_backup_def outside_world_def example_defs eval_defs)
  note t1 = backup_requires_files_below_cwd
    [of outside_world "Path True [''etc'']" example_env "Path True [''etc'']" "Path False [''a'']"
      "''sha1''" EX_OK]
  note t2 = backup_requires_files_below_cwd
    [of example_world "Path True [''etc'']" example_env "Path False [''d'']" "Path False [''a'']"
      "''sha1''" EX_OK]
  from t1 h1 h2 obtain e where
    "cmd_backup example_env (Path True [''etc'']) (Path False [''a'']) ''sha1'' outside_world =
       (Inl e, outside_world)" by blast
  moreover from t2 h3 h4 have "prefix (cwd example_world)
        (abs_key example_world (path_join (Path False [''d'']) [''f'']))" by simp
  ultimately show ?thesis using h1 h2 h3 h4 ev by simp
qed

lemma json_dumps_manifest_file:
  "json_dumps lvl (json_of_manifest_file f) =
     ''{'' @ newline_indent (lvl + 1) @
     encode_basestring_ascii ''checksum'' @ '': '' @ encode_basestring_ascii (file_checksum f) @
     '','' @ newline_indent (lvl + 1) @
     encode_basestring_ascii ''path'' @ '': '' @ encode_basestring_ascii (path f) @
     newline_indent lvl @ ''}''"
  by (simp add: json_of_manifest_file_def)

lemma json_dump_layout:
  "json_dump m =
     ''{'' @ newline_indent 1 @
     encode_basestring_ascii ''archive_name'' @ '': '' @
       encode_basestring_ascii (archive_name m) @ '','' @ newline_indent 1 @
     encode_basestring_ascii ''checksum'' @ '': '' @
       encode_basestring_ascii (checksum m) @ '','' @ newline_indent 1 @
     encode_basestring_ascii ''checksum_algorithm'' @ '': '' @
       encode_basestring_ascii (checksum_algorithm m) @ '','' @ newline_indent 1 @
     encode_basestring_ascii ''creation_time'' @ '': '' @
       str_of_int (creation_time m) @ '','' @ newline_indent 1 @
     encode_basestring_ascii ''files'' @ '': '' @
       json_dumps 1 (JArray (map json_of_manifest_file (files m))) @
     newline_indent 0 @ ''}''"
  by (simp add: json_dump_def json_of_manifest_def del: json_dumps.simps(3))

text \<open>
  C7. When \<^verbatim>\<open>cmd_backup\<close> returns, the manifest file holds the manifest whose
  \<^verbatim>\<open>checksum\<close> is the digest of the archive file as it stands on disk, and that file is
  the finished archive: the pack of the members added for all the paths the scan found.
  When \<^verbatim>\<open>cmd_backup\<close> raises, the manifest file is as it was before, so no checksum of an
  unfinished archive is ever written to it.
\<close>

theorem backup_manifest_checksum_of_finished_archive:
  assumes "cmd_backup E args_path args_archive_name alg w = (r, w')"
  shows "case r of
           Inl e \<Rightarrow>
             map_of (fs_files w') (abs_key w (manifest_name args_archive_name)) =
               map_of (fs_files w) (abs_key w (manifest_name args_archive_name))
         | Inr c \<Rightarrow>
             (\<exists>manifest paths members.
                read_file w' (manifest_name args_archive_name) = Inr (json_dump manifest)
              \<and> read_file w' (tar_name args_archive_name) = Inr (tar_pack E members)
              \<and> digest E alg (tar_pack E members) = Some (checksum manifest)
              \<and> backup_scan E w args_path alg (os_walk w args_path) ([], []) =
                  Inr (paths, files manifest)
              \<and> tar_add_all (archive_opened w (tar_name args_archive_name))
                   (abs_key w (tar_name args_archive_name)) paths [] = Inr members)"
proof (cases r)
  case (Inl e)
  with cmd_backup_Inl[of E args_path args_archive_name alg w e w'] assms
  have "map_of (fs_files w') (abs_key w (manifest_name args_archive_name)) =
          map_of (fs_files w) (abs_key w (manifest_name args_archive_name))"
    using tar_key_neq_manifest_key[of w args_archive_name]
    by (auto simp: archive_opened_def update_conv')
  with Inl show ?thesis by simp
next
  case (Inr c)
  with cmd_backup_Inr[of E args_path args_archive_name alg w c w'] assms
  obtain paths mfiles members ck where
    scan: "backup_scan E w args_path alg (os_walk w args_path) ([], []) = Inr (paths, mfiles)"
    and add: "tar_add_all (archive_opened w (tar_name args_archive_name))
                (abs_key w (tar_name args_archive_name)) paths [] = Inr members"
    and dg: "digest E alg (tar_pack E members) = Some ck"
    and w': "w' = w\<lparr>fs_files :=
                   AList.update (abs_key w (manifest_name args_archive_name))
                     (json_dump \<lparr>archive_name = str_of_path args_archive_name @ ''.tar.gz'',
                                 checksum = ck, checksum_algorithm = alg,
                                 creation_time = time_now E, files = mfiles\<rparr>)
                     (AList.update (abs_key w (tar_name args_archive_name)) (tar_pack E members)
                        (AList.update (abs_key w (tar_name args_archive_name)) []
                           (fs_files w)))\<rparr>"
    by blast
  let ?m = "\<lparr>archive_name = str_of_path args_archive_name @ ''.tar.gz'',
             checksum = ck, checksum_algorithm = alg,
             creation_time = time_now E, files = mfiles\<rparr>"
  have k: "abs_key w' p = abs_key w p" for p by (simp add: w' abs_key_def)
  have "read_file w' (manifest_name args_archive_name) = Inr (json_dump ?m)"
    by (simp add: read_file_def k) (simp add: w' update_conv')
  moreover have "read_file w' (tar_name args_archive_name) = Inr (tar_pack E members)"
    using tar_key_neq_manifest_key[of w args_archive_name]
    by (simp add: read_file_def k) (simp add: w' update_conv')
  ultimately show ?thesis using Inr scan add dg
    by (auto intro!: exI[of _ ?m])
qed

theorem backup_manifest_checksum_of_finished_archive_witness:
  "cmd_backup example_env (Path False [''d'']) (Path False [''a'']) ''sha1'' example_world =
     (Inr EX_OK, world_with ''T'' example_manifest)
   \<and> (\<exists>manifest paths members.
         read_file (world_with ''T'' example_manifest) (manifest_name (Path False [''a''])) =
           Inr (json_dump manifest)
       \<and> read_file (world_with ''T'' example_manifest) (tar_name (Path False [''a''])) =
           Inr (tar_pack example_env members)
       \<and> digest example_env ''sha1'' (tar_pack example_env members) = Some (checksum manifest)
       \<and> backup_scan example_env example_world (Path False [''d'']) ''sha1''
            (os_walk example_world (Path False [''d''])) ([], []) = Inr (paths, files manifest)
       \<and> tar_add_all (archive_opened example_world (tar_name (Path False [''a''])))
            (abs_key example_world (tar_name (Path False [''a''])))
            paths [] = Inr members)
   \<and> read_file (world_with ''T'' example_manifest) (manifest_name (Path False [''a''])) =
       Inr (json_dump example_manifest)
   \<and> read_file (world_with ''T'' example_manifest) (tar_name (Path False [''a''])) = Inr ''T''
   \<and> digest example_env ''sha1'' ''T'' = Some (checksum example_manifest)"
proof -
  have r1: "read_file (world_with ''T'' example_manifest) (manifest_name (Path False [''a''])) =
       Inr (json_dump example_manifest)"
    by (simp add: manifest_name_def example_defs eval_defs)
  have r2: "read_file (world_with ''T'' example_manifest) (tar_name (Path False [''a''])) =
       Inr ''T''"
    by (simp add: tar_name_def example_defs eval_defs)
  have r3: "digest example_env ''sha1'' ''T'' = Some (checksum example_manifest)"
    by (simp add: example_defs)
  from backup_manifest_checksum_of_finished_archive[OF backup_example] backup_example r1 r2 r3
  show ?thesis by simp
qed

text \<open>
  C10. When \<^verbatim>\<open>cmd_backup\<close> returns, the file \<^verbatim>\<open><archive_name>.tar.gz\<close> holds the
  finished archive, the pack of the members added for the paths the scan found, and the
  file \<^verbatim>\<open><archive_name>.manifest\<close> holds the JSON text of the manifest, whose
  \<^verbatim>\<open>archive_name\<close> is the name of the archive file and whose \<^verbatim>\<open>checksum\<close> is the
  digest of that archive; no other file is written and nothing else changes. The JSON text is one object with the five keys \<^verbatim>\<open>archive_name\<close>,
  \<^verbatim>\<open>checksum\<close>, \<^verbatim>\<open>checksum_algorithm\<close>, \<^verbatim>\<open>creation_time\<close> and \<^verbatim>\<open>files\<close>, in this
  (sorted) order, each on a line of its own indented by four spaces.
\<close>

theorem backup_writes_named_archive_and_manifest:
  assumes "cmd_backup E args_path args_archive_name alg w = (Inr c, w')"
  shows "\<exists>manifest paths members.
           backup_scan E w args_path alg (os_walk w args_path) ([], []) =
             Inr (paths, files manifest)
         \<and> tar_add_all
              (archive_opened w (path_of_str (str_of_path args_archive_name @ ''.tar.gz'')))
              (abs_key w (path_of_str (str_of_path args_archive_name @ ''.tar.gz'')))
              paths [] = Inr members
         \<and> read_file w' (path_of_str (str_of_path args_archive_name @ ''.tar.gz'')) =
             Inr (tar_pack E members)
         \<and> read_file w' (path_of_str (str_of_path args_archive_name @ ''.manifest'')) =
             Inr (json_dump manifest)
         \<and> w' = w\<lparr>fs_files :=
                   AList.update
                     (abs_key w (path_of_str (str_of_path args_archive_name @ ''.manifest'')))
                     (json_dump manifest)
                     (AList.update
                        (abs_key w (path_of_str (str_of_path args_archive_name @ ''.tar.gz'')))
                        (tar_pack E members)
                        (AList.update
                           (abs_key w (path_of_str (str_of_path args_archive_name @ ''.tar.gz'')))
                           [] (fs_files w)))\<rparr>
         \<and> archive_name manifest = str_of_path args_archive_name @ ''.tar.gz''
         \<and> digest E alg (tar_pack E members) = Some (checksum manifest)
         \<and> checksum_algorithm manifest = alg
         \<and> creation_time manifest = time_now E
         \<and> json_dump manifest =
             ''{'' @ newline_indent 1 @
             encode_basestring_ascii ''archive_name'' @ '': '' @
               encode_basestring_ascii (archive_name manifest) @ '','' @ newline_indent 1 @
             encode_basestring_ascii ''checksum'' @ '': '' @
               encode_basestring_ascii (checksum manifest) @ '','' @ newline_indent 1 @
             encode_basestring_ascii ''checksum_algorithm'' @ '': '' @
               encode_basestring_ascii (checksum_algorithm manifest) @ '','' @ newline_indent 1 @
             encode_basestring_ascii ''creation_time'' @ '': '' @
               str_of_int (creation_time manifest) @ '','' @ newline_indent 1 @
             encode_basestring_ascii ''files'' @ '': '' @
               json_dumps 1 (JArray (map json_of_manifest_file (files manifest))) @
             newline_indent 0 @ ''}''"
proof -
  from cmd_backup_Inr[OF assms]
  obtain paths mfiles members ck where
    scan: "backup_scan E w args_path alg (os_walk w args_path) ([], []) = Inr (paths, mfiles)"
    and add: "tar_add_all (archive_opened w (tar_name args_archive_name))
                (abs_key w (tar_name args_archive_name)) paths [] = Inr members"
    and dg: "digest E alg (tar_pack E members) = Some ck"
    and w': "w' = w\<lparr>fs_files :=
                   AList.update (abs_key w (manifest_name args_archive_name))
                     (json_dump \<lparr>archive_name = str_of_path args_archive_name @ ''.tar.gz'',
                                 checksum = ck, checksum_algorithm = alg,
                                 creation_time = time_now E, files = mfiles\<rparr>)
                     (AList.update (abs_key w (tar_name args_archive_name)) (tar_pack E members)
                        (AList.update (abs_key w (tar_name args_archive_name)) []
                           (fs_files w)))\<rparr>"
    by blast
  let ?m = "\<lparr>archive_name = str_of_path args_archive_name @ ''.tar.gz'',
             checksum = ck, checksum_algorithm = alg,
             creation_time = time_now E, files = mfiles\<rparr>"
  have k: "abs_key w' p = abs_key w p" for p by (simp add: w' abs_key_def)
  have m: "read_file w' (manifest_name args_archive_name) = Inr (json_dump ?m)"
    by (simp add: read_file_def k) (simp add: w' update_conv')
  have t: "read_file w' (tar_name args_archive_name) = Inr (tar_pack E members)"
    using tar_key_neq_manifest_key[of w args_archive_name]
    by (simp add: read_file_def k) (simp add: w' update_conv')
  have "backup_scan E w args_path alg (os_walk w args_path) ([], []) = Inr (paths, files ?m)"
    using scan by simp
  moreover note add[unfolded tar_name_def] t[unfolded tar_name_def] m[unfolded manifest_name_def]
    w'[unfolded tar_name_def manifest_name_def]
  moreover have "archive_name ?m = str_of_path args_archive_name @ ''.tar.gz''"
    "digest E alg (tar_pack E members) = Some (checksum ?m)"
    "checksum_algorithm ?m = alg" "creation_time ?m = time_now E"
    using dg by simp_all
  moreover note json_dump_layout[of ?m]
  ultimately show ?thesis
    by (intro exI[of _ ?m] exI[of _ paths] exI[of _ members] conjI)
qed

theorem backup_writes_named_archive_and_manifest_witness:
  "cmd_backup example_env (Path False [''d'']) (Path False [''a'']) ''sha1'' example_world =
     (Inr EX_OK, world_with ''T'' example_manifest)
   \<and> str_of_path (Path False [''a'']) @ ''.manifest'' = ''a.manifest''
   \<and> str_of_path (Path False [''a'']) @ ''.tar.gz'' = ''a.tar.gz''
   \<and> read_file (world_with ''T'' example_manifest) (path_of_str ''a.manifest'') =
       Inr (json_dump example_manifest)
   \<and> read_file (world_with ''T'' example_manifest) (path_of_str ''a.tar.gz'') = Inr ''T''
   \<and> archive_name example_manifest = ''a.tar.gz''
   \<and> (\<exists>manifest paths members.
         backup_scan example_env example_world (Path False [''d'']) ''sha1''
           (os_walk example_world (Path False [''d''])) ([], []) = Inr (paths, files manifest)
       \<and> tar_add_all (archive_opened example_world (path_of_str ''a.tar.gz''))
           (abs_key example_world (path_of_str ''a.tar.gz'')) paths [] = Inr members
       \<and> read_file (world_with ''T'' example_manifest) (path_of_str ''a.tar.gz'') =
           Inr (tar_pack example_env members)
       \<and> read_file (world_with ''T'' example_manifest) (path_of_str ''a.manifest'') =
           Inr (json_dump manifest)
       \<and> archive_name manifest = ''a.tar.gz'')"
proof -
  have r1: "read_file (world_with ''T'' example_manifest) (path_of_str ''a.manifest'') =
       Inr (json_dump example_manifest)"
    by (simp add: example_defs eval_defs)
  have r2: "read_file (world_with ''T'' example_manifest) (path_of_str ''a.tar.gz'') = Inr ''T''"
    by (simp add: example_defs eval_defs)
  have s: "str_of_path (Path False [''a'']) @ ''.manifest'' = ''a.manifest''"
    "str_of_path (Path False [''a'']) @ ''.tar.gz'' = ''a.tar.gz''"
    by (simp_all add: str_of_path_def)
  from backup_writes_named_archive_and_manifest[OF backup_example]
  obtain manifest paths members where
    "backup_scan example_env example_world (Path False [''d'']) ''sha1''
       (os_walk example_world (Path False [''d''])) ([], []) = Inr (paths, files manifest)"
    "tar_add_all (archive_opened example_world (path_of_str ''a.tar.gz''))
       (abs_key example_world (path_of_str ''a.tar.gz'')) paths [] = Inr members"
    "read_file (world_with ''T'' example_manifest) (path_of_str ''a.tar.gz'') =
       Inr (tar_pack example_env members)"
    "read_file (world_with ''T'' example_manifest) (path_of_str ''a.manifest'') =
       Inr (json_dump manifest)"
    "archive_name manifest = ''a.tar.gz''"
    unfolding s by blast
  then have "\<exists>manifest paths members.
         backup_scan example_env example_world (Path False [''d'']) ''sha1''
           (os_walk example_world (Path False [''d''])) ([], []) = Inr (paths, files manifest)
       \<and> tar_add_all (archive_opened example_world (path_of_str ''a.tar.gz''))
           (abs_key example_world (path_of_str ''a.tar.gz'')) paths [] = Inr members
       \<and> read_file (world_with ''T'' example_manifest) (path_of_str ''a.tar.gz'') =
           Inr (tar_pack example_env members)
       \<and> read_file (world_with ''T'' example_manifest) (path_of_str ''a.manifest'') =
           Inr (json_dump manifest)
       \<and> archive_name manifest = ''a.tar.gz''" by blast
  with backup_example r1 r2 s show ?thesis by (simp add: example_manifest_def)
qed

section \<open>What a run returns\<close>

lemma cd_safe_extract_streams:
  assumes "cd p (safe_extract tar) w = (r, w1)"
  shows "stdout w1 = stdout w \<and> stderr w1 = stderr w"
proof -
  obtain r0 w0 where c0: "chdir p w = (r0, w0)" by (cases "chdir p w")
  then have s0: "stdout w0 = stdout w \<and> stderr w0 = stderr w"
    by (auto simp: chdir_def Let_def split: if_splits)
  show ?thesis
  proof (cases r0)
    case (Inl e)
    with assms c0 s0 show ?thesis by (simp add: cd_def Let_def)
  next
    case (Inr u)
    obtain r2 w2 where b: "safe_extract tar w0 = (r2, w2)" by (cases "safe_extract tar w0")
    obtain r3 w3 where c3: "chdir (Path_cwd w) w2 = (r3, w3)" by (cases "chdir (Path_cwd w) w2")
    then have s3: "stdout w3 = stdout w2 \<and> stderr w3 = stderr w2"
      by (auto simp: chdir_def Let_def split: if_splits)
    from assms c0 Inr b c3 have "w1 = w3"
      by (auto simp: cd_def Let_def split: sum.splits)
    with s3 s0 safe_extract_frame[OF b] show ?thesis by simp
  qed
qed

lemma report_outcomes:
  "report bad_checksums missing_paths w =
     (if bad_checksums = [] \<and> missing_paths = []
      then (Inr EX_OK, print_out ''Backup restored successfully'' w)
      else (Inr EX_DATAERR, snd (report bad_checksums missing_paths w)))
   \<and> (bad_checksums \<noteq> [] \<or> missing_paths \<noteq> [] \<longrightarrow>
        stdout (snd (report bad_checksums missing_paths w)) = stdout w \<and>
        (\<exists>msgs. stderr (snd (report bad_checksums missing_paths w)) =
                  stderr w @ msgs @ [''Backup restoration failed'']))"
  by (auto simp: report_def Let_def print_err_def print_out_def)

lemma cmd_restore_Inr:
  assumes "cmd_restore E am ap w = (Inr c, w')"
  shows "(c = EX_DATAERR \<and> (\<exists>msg. w' = print_err msg w))
       \<or> (\<exists>tar w1 bad missing.
             cd ap (safe_extract tar) w = (Inr (), w1) \<and> report bad missing w1 = (Inr c, w'))"
  using assms
  by (auto simp: cmd_restore_def split: sum.splits option.splits prod.splits if_splits)

text \<open>
  C5, as the code has it. \<^verbatim>\<open>main\<close> catches no exception. A run that does not raise returns
  a defined exit code: \<^verbatim>\<open>EX_USAGE\<close> with one message on the error stream when no
  subcommand is given; for \<^verbatim>\<open>backup\<close>, \<^verbatim>\<open>EX_OK\<close> with no message at all; for \<^verbatim>\<open>restore\<close>,
  \<^verbatim>\<open>EX_DATAERR\<close> with at least one message on the error stream (the archive checksum
  differs, or the reconciliation found a bad or missing file), or \<^verbatim>\<open>EX_OK\<close> with the one
  message \<^verbatim>\<open>Backup restored successfully\<close> on the output stream. Every other run raises:
  the errors of the file system, the digest, the archive and JSON readers, and the
  exception of the path guard reach the caller of \<^verbatim>\<open>main\<close>.
\<close>

theorem main_outcomes:
  assumes "main E a w = (r, w')"
  shows "case a of
           NoCommand \<Rightarrow>
             r = Inr EX_USAGE \<and> stdout w' = stdout w \<and>
             stderr w' =
               stderr w @ [''Please specify a command. Run with --help for more information.'']
         | Backup args_path args_archive_name alg \<Rightarrow>
             (\<exists>e. r = Inl e) \<or>
             (r = Inr EX_OK \<and> stdout w' = stdout w \<and> stderr w' = stderr w)
         | Restore args_manifest args_path \<Rightarrow>
             (\<exists>e. r = Inl e) \<or>
             (r = Inr EX_DATAERR \<and> stdout w' = stdout w \<and>
              (\<exists>msgs. msgs \<noteq> [] \<and> stderr w' = stderr w @ msgs)) \<or>
             (r = Inr EX_OK \<and> stdout w' = stdout w @ [''Backup restored successfully''] \<and>
              stderr w' = stderr w)"
proof (cases a)
  case NoCommand
  with assms show ?thesis by (auto simp: main_def print_err_def)
next
  case (Backup args_path args_archive_name alg)
  with assms have b: "cmd_backup E args_path args_archive_name alg w = (r, w')"
    by (simp add: main_def)
  show ?thesis
  proof (cases r)
    case (Inl e)
    with Backup show ?thesis by simp
  next
    case (Inr c)
    with b cmd_backup_Inr[of E args_path args_archive_name alg w c w'] Backup
    show ?thesis by auto
  qed
next
  case (Restore args_manifest args_path)
  with assms have b: "cmd_restore E args_manifest args_path w = (r, w')"
    by (simp add: main_def)
  show ?thesis
  proof (cases r)
    case (Inl e)
    with Restore show ?thesis by simp
  next
    case (Inr c)
    from cmd_restore_Inr[OF b[unfolded Inr]]
    show ?thesis
    proof (elim disjE exE conjE)
      fix msg assume "c = EX_DATAERR" "w' = print_err msg w"
      with Restore Inr show ?thesis by (simp add: print_err_def)
    next
      fix tar w1 bad missing
      assume cdr: "cd args_path (safe_extract tar) w = (Inr (), w1)"
        and rep: "report bad missing w1 = (Inr c, w')"
      note s1 = cd_safe_extract_streams[OF cdr]
      show ?thesis
      proof (cases "bad = [] \<and> missing = []")
        case True
        with rep report_outcomes[of bad missing w1] s1 Restore Inr
        show ?thesis by (auto simp: print_out_def)
      next
        case False
        with rep report_outcomes[of bad missing w1] s1 Restore Inr
        show ?thesis by auto
      qed
    qed
  qed
qed

theorem main_outcomes_witness:
  "main example_env NoCommand example_world =
     (Inr EX_USAGE,
      example_world
        \<lparr>stderr := [''Please specify a command. Run with --help for more information.'']\<rparr>)
   \<and> stdout (example_world
        \<lparr>stderr := [''Please specify a command. Run with --help for more information.'']\<rparr>)
       = stdout example_world
   \<and> main example_env (Backup (Path False [''d'']) (Path False [''a'']) ''sha1'') example_world =
       (Inr EX_OK, world_with ''T'' example_manifest)
   \<and> stdout (world_with ''T'' example_manifest) = stdout example_world
   \<and> stderr (world_with ''T'' example_manifest) = stderr example_world"
proof -
  have h1: "main example_env NoCommand example_world =
     (Inr EX_USAGE,
      example_world
        \<lparr>stderr := [''Please specify a command. Run with --help for more information.'']\<rparr>)"
    by (simp add: main_def print_err_def example_world_def)
  have h2: "main example_env (Backup (Path False [''d'']) (Path False [''a'']) ''sha1'')
              example_world = (Inr EX_OK, world_with ''T'' example_manifest)"
    by (simp add: main_def backup_example)
  from main_outcomes[OF h1] main_outcomes[OF h2] h1 h2 show ?thesis by simp
qed

text \<open>
  The claim as the specification states it fails: restoring an archive with a member
  \<^verbatim>\<open>../x\<close> ends in an exception, not in an exit code.
\<close>

lemma restore_traversal_example:
  "cmd_restore example_env (Path False [''a.manifest'']) (Path False [''r''])
     (world_with ''V'' traversal_manifest) =
   (Inl (Exception ''Attempted Path Traversal in Tar File''), world_with ''V'' traversal_manifest)"
  by (simp add: cmd_restore_def json_load_traversal world_with_def example_world_def
      read_file_def abs_key_def)
     (simp add: example_defs eval_defs restore_defs)

theorem main_unhandled_exception:
  "main example_env (Restore (Path False [''a.manifest'']) (Path False [''r'']))
     (world_with ''V'' traversal_manifest) =
   (Inl (Exception ''Attempted Path Traversal in Tar File''), world_with ''V'' traversal_manifest)"
  by (simp add: main_def cmd_restore_def json_load_traversal world_with_def example_world_def
      read_file_def abs_key_def)
     (simp add: example_defs eval_defs restore_defs)

section \<open>Restore: the path guard\<close>

lemma split_sep_slash: "split_sep (s @ CHR ''/'' # t) = split_sep s @ split_sep t"
proof (induction s)
  case Nil
  then show ?case by simp
next
  case (Cons c s)
  then show ?case by (cases "split_sep s") auto
qed

lemma join_sep_Cons: "xs \<noteq> [] \<Longrightarrow> join_sep sep (x # xs) = x @ sep @ join_sep sep xs"
  by (cases xs) auto

lemma join_sep_append:
  "xs \<noteq> [] \<Longrightarrow> ys \<noteq> [] \<Longrightarrow> join_sep sep (xs @ ys) = join_sep sep xs @ sep @ join_sep sep ys"
proof (induction xs)
  case Nil
  then show ?case by simp
next
  case (Cons x xs)
  show ?case
  proof (cases "xs = []")
    case True
    with Cons.prems show ?thesis by (simp add: join_sep_Cons)
  next
    case False
    with Cons show ?thesis by (simp add: join_sep_Cons)
  qed
qed

lemma split_join:
  assumes "xs \<noteq> []" and "\<forall>x \<in> set xs. CHR ''/'' \<notin> set x"
  shows "split_sep (join_sep ''/'' xs) = xs"
  using assms
proof (induction xs)
  case Nil
  then show ?case by simp
next
  case (Cons x xs)
  show ?case
  proof (cases "xs = []")
    case True
    with Cons.prems show ?thesis by (simp add: split_sep_no_slash)
  next
    case False
    with Cons have "split_sep (join_sep ''/'' xs) = xs" by simp
    with False Cons.prems show ?thesis
      by (simp add: join_sep_Cons split_sep_slash split_sep_no_slash)
  qed
qed

lemma normpath_comps_absolute:
  "''..'' \<notin> set acc \<Longrightarrow>
   normpath_comps True acc cs = resolve_from acc (filter (\<lambda>c. c \<noteq> [] \<and> c \<noteq> ''.'') cs)"
proof (induction cs arbitrary: acc)
  case Nil
  then show ?case by simp
next
  case (Cons c cs)
  have b: "''..'' \<notin> set (butlast acc)" using Cons.prems by (auto dest: in_set_butlastD)
  show ?case
  proof (cases "c = [] \<or> c = ''.''")
    case True
    with Cons show ?thesis by auto
  next
    case False
    show ?thesis
    proof (cases "c = ''..''")
      case True
      have l: "acc \<noteq> [] \<Longrightarrow> last acc \<noteq> ''..''" using Cons.prems by (metis last_in_set)
      from True l Cons.IH[OF b] Cons.IH[OF Cons.prems] show ?thesis
        by (cases "acc = []") auto
    next
      case ndd: False
      then have "''..'' \<notin> set (acc @ [c])" using Cons.prems by auto
      from Cons.IH[OF this] False ndd show ?thesis by simp
    qed
  qed
qed

lemma clean_key_simps [simp]:
  "clean_key []" "clean_key (c # k) = (clean_comp c \<and> clean_key k)"
  "clean_key (k @ k') = (clean_key k \<and> clean_key k')"
  by (auto simp: clean_key_def)

lemma clean_key_no_dotdot: "clean_key k \<Longrightarrow> ''..'' \<notin> set k"
  by (auto simp: clean_key_def clean_comp_def list_all_iff)

lemma clean_key_no_slash: "clean_key k \<Longrightarrow> \<forall>c \<in> set k. CHR ''/'' \<notin> set c"
  by (auto simp: clean_key_def clean_comp_def list_all_iff)

lemma clean_key_filter:
  "clean_key k \<Longrightarrow> filter (\<lambda>c. c \<noteq> [] \<and> c \<noteq> ''.'') k = k"
  by (induction k) (auto simp: clean_comp_def)

lemma join_clean_not_slash:
  assumes "clean_key k" and "k \<noteq> []"
  shows "join_sep ''/'' k \<noteq> []" and "hd (join_sep ''/'' k) \<noteq> CHR ''/''"
    and "last (join_sep ''/'' k) \<noteq> CHR ''/''"
proof -
  obtain c k' where k: "k = c # k'" using assms(2) by (cases k) auto
  with assms(1) have c: "c \<noteq> []" "CHR ''/'' \<notin> set c" by (auto simp: clean_comp_def)
  then have hc: "hd c \<noteq> CHR ''/''" by (cases c) auto
  show "join_sep ''/'' k \<noteq> []" using c k by (cases k') auto
  show "hd (join_sep ''/'' k) \<noteq> CHR ''/''" using c hc k by (cases k') auto
  show "last (join_sep ''/'' k) \<noteq> CHR ''/''"
    using assms
  proof (induction k)
    case Nil
    then show ?case by simp
  next
    case (Cons x xs)
    then have x: "x \<noteq> []" "CHR ''/'' \<notin> set x" by (auto simp: clean_comp_def)
    then have lx: "last x \<noteq> CHR ''/''" by (metis last_in_set)
    show ?case
    proof (cases "xs = []")
      case True
      with lx show ?thesis by simp
    next
      case False
      with Cons have "last (join_sep ''/'' xs) \<noteq> CHR ''/''" by simp
      moreover have "join_sep ''/'' xs \<noteq> []"
        using False Cons.prems x by (cases xs; cases "tl xs") (auto simp: clean_comp_def)
      ultimately show ?thesis using False by (simp add: join_sep_Cons)
    qed
  qed
qed

lemma startswith_slash: "startswith s ''/'' \<longleftrightarrow> s \<noteq> [] \<and> hd s = CHR ''/''"
  by (cases s) (auto simp: startswith_def)

text \<open>\<^verbatim>\<open>normpath\<close> of an absolute path with a single leading slash.\<close>

lemma normpath_single_slash:
  assumes "\<not> startswith rest ''/''"
  shows "normpath (CHR ''/'' # rest) =
           key_str (resolve_from [] (filter (\<lambda>c. c \<noteq> [] \<and> c \<noteq> ''.'') (split_sep rest)))"
proof -
  have s2: "\<not> startswith (CHR ''/'' # rest) ''//''"
    using assms by (cases rest) (auto simp: startswith_def)
  have sp: "split_sep (CHR ''/'' # rest) = [] # split_sep rest" by simp
  show ?thesis
    using s2
    by (simp add: normpath_def Let_def startswith_def[of _ "''/''"] sp
        normpath_comps_absolute key_str_def del: split_sep.simps)
qed

lemma abspath_relative:
  assumes "clean_key (cwd w)" and "\<not> startswith t ''/''" and "t \<noteq> []"
  shows "os_path_abspath w t = key_str (abs_key w (path_of_str t))"
proof -
  let ?P = "\<lambda>c. c \<noteq> [] \<and> c \<noteq> ''.''"
  have key: "abs_key w (path_of_str t) = resolve_from (cwd w) (filter ?P (split_sep t))"
    using assms(2) by (simp add: abs_key_def path_of_str_def)
  have nd: "''..'' \<notin> set (cwd w)" using assms(1) by (rule clean_key_no_dotdot)
  show ?thesis
  proof (cases "cwd w = []")
    case True
    then have "os_path_join (os_getcwd w) t = CHR ''/'' # t"
      using assms(2) by (simp add: os_path_join_def os_getcwd_def)
    then have "os_path_abspath w t = normpath (CHR ''/'' # t)"
      using assms(2) by (simp add: os_path_abspath_def)
    also have "\<dots> = key_str (resolve_from [] (filter ?P (split_sep t)))"
      using assms(2) by (rule normpath_single_slash)
    finally show ?thesis using True key by simp
  next
    case False
    note j = join_clean_not_slash[OF assms(1) False]
    let ?rest = "join_sep ''/'' (cwd w) @ CHR ''/'' # t"
    have "os_path_join (os_getcwd w) t = CHR ''/'' # ?rest"
      using assms(2) j by (simp add: os_path_join_def os_getcwd_def)
    then have "os_path_abspath w t = normpath (CHR ''/'' # ?rest)"
      using assms(2) by (simp add: os_path_abspath_def)
    also have "\<dots> = key_str (resolve_from [] (filter ?P (split_sep ?rest)))"
    proof (rule normpath_single_slash)
      show "\<not> startswith ?rest ''/''" using j by (simp add: startswith_slash)
    qed
    also have "split_sep ?rest = cwd w @ split_sep t"
      using split_join[OF False clean_key_no_slash[OF assms(1)]] by (simp add: split_sep_slash)
    also have "filter ?P (cwd w @ split_sep t) = cwd w @ filter ?P (split_sep t)"
      using clean_key_filter[OF assms(1)] by simp
    also have "resolve_from [] (cwd w @ filter ?P (split_sep t)) =
                 resolve_from (cwd w) (filter ?P (split_sep t))"
      using nd by (simp add: resolve_from_append resolve_from_clean)
    finally show ?thesis using key by simp
  qed
qed

lemma abspath_dot:
  assumes "clean_key (cwd w)"
  shows "os_path_abspath w ''.'' = key_str (cwd w)"
  using abspath_relative[OF assms, of "''.''"]
  by (simp add: startswith_def abs_key_def path_of_str_def)

lemma abspath_absolute:
  assumes "startswith name ''/''"
  shows "\<exists>n. (n = 1 \<or> n = 2) \<and>
           os_path_abspath w name =
             replicate n CHR ''/'' @ join_sep ''/'' (abs_key w (path_of_str name))"
proof -
  have ne: "name \<noteq> []" using assms by (auto simp: startswith_def)
  have k: "abs_key w (path_of_str name) =
             resolve_from [] (filter (\<lambda>c. c \<noteq> [] \<and> c \<noteq> ''.'') (split_sep name))"
    using assms by (simp add: abs_key_def path_of_str_def)
  show ?thesis
  proof (cases "startswith name ''//'' \<and> \<not> startswith name ''///''")
    case True
    with assms ne have "os_path_abspath w name =
            replicate 2 CHR ''/'' @ join_sep ''/'' (abs_key w (path_of_str name))"
      by (simp add: os_path_abspath_def normpath_def Let_def normpath_comps_absolute k)
    then show ?thesis by blast
  next
    case False
    with assms ne have "os_path_abspath w name =
            replicate 1 CHR ''/'' @ join_sep ''/'' (abs_key w (path_of_str name))"
      by (auto simp: os_path_abspath_def normpath_def Let_def normpath_comps_absolute k)
    then show ?thesis by blast
  qed
qed

lemma os_path_join_dot:
  "os_path_join ''.'' name = (if startswith name ''/'' then name else ''./'' @ name)"
  by (simp add: os_path_join_def)

text \<open>
  What the guard compares when the working directory is normalised: the string of the
  directory with the string of the member's destination.
\<close>

lemma guard_relative:
  assumes "clean_key (cwd w)" and "\<not> startswith name ''/''"
  shows "is_within_directory w ''.'' (os_path_join ''.'' name) \<longleftrightarrow>
           prefix (key_str (cwd w))
             (key_str (abs_key w (path_of_str (os_path_join ''.'' name))))"
proof -
  have "\<not> startswith (''./'' @ name) ''/''" by (simp add: startswith_def)
  from abspath_relative[OF assms(1) this] assms(2) show ?thesis
    by (simp add: is_within_directory_iff abspath_dot[OF assms(1)] os_path_join_dot)
qed

lemma guard_rejects:
  assumes "clean_key (cwd w)"
    and "\<not> prefix (key_str (cwd w))
             (key_str (abs_key w (path_of_str (os_path_join ''.'' name))))"
  shows "\<not> is_within_directory w ''.'' (os_path_join ''.'' name)"
proof (cases "startswith name ''/''")
  case False
  with guard_relative[OF assms(1) False] assms(2) show ?thesis by simp
next
  case True
  let ?dest = "abs_key w (path_of_str name)"
  from abspath_absolute[OF True, of w] obtain n where
    n: "n = 1 \<or> n = 2" and a: "os_path_abspath w name = replicate n CHR ''/'' @ join_sep ''/'' ?dest"
    by blast
  have np: "\<not> prefix (key_str (cwd w)) (key_str ?dest)"
    using assms(2) True by (simp add: os_path_join_dot)
  have "\<not> prefix (key_str (cwd w)) (os_path_abspath w name)"
  proof (cases "n = 1")
    case True
    with a np show ?thesis by (simp add: key_str_def)
  next
    case False
    with n a have a2: "os_path_abspath w name = ''//'' @ join_sep ''/'' ?dest"
      by (simp add: numeral_2_eq_2)
    have c: "cwd w \<noteq> []"
    proof
      assume "cwd w = []"
      then have "prefix (key_str (cwd w)) (key_str ?dest)" by (simp add: key_str_def)
      with np show False by simp
    qed
    note j = join_clean_not_slash[OF assms(1) c]
    show ?thesis
    proof
      assume "prefix (key_str (cwd w)) (os_path_abspath w name)"
      then have "prefix (join_sep ''/'' (cwd w)) (CHR ''/'' # join_sep ''/'' ?dest)"
        by (simp add: a2 key_str_def)
      with j show False by (cases "join_sep ''/'' (cwd w)") auto
    qed
  qed
  with True show ?thesis
    by (simp add: is_within_directory_iff abspath_dot[OF assms(1)] os_path_join_dot)
qed

lemma check_members_rejects:
  assumes "member \<in> set tar"
    and "\<not> is_within_directory w dir (os_path_join dir (fst member))"
  shows "check_members w dir tar = Inl (Exception ''Attempted Path Traversal in Tar File'')"
  using assms by (induction tar) (auto simp: Let_def)

lemma check_members_accepts:
  assumes "\<forall>member \<in> set tar. is_within_directory w dir (os_path_join dir (fst member))"
  shows "check_members w dir tar = Inr ()"
  using assms by (induction tar) (auto simp: Let_def)

lemma cd_body_raises:
  assumes "is_dir w (abs_key w p)" and "is_dir w (cwd w)" and "''..'' \<notin> set (cwd w)"
    and "body (w\<lparr>cwd := abs_key w p\<rparr>) = (r, w\<lparr>cwd := abs_key w p\<rparr>)"
  shows "cd p body w = (r, w)"
proof -
  have "is_dir (w\<lparr>cwd := abs_key w p\<rparr>) (cwd w)" using assms(2) by simp
  from cd_result[where body = body, OF assms(1) assms(4) this assms(3)]
  show ?thesis by simp
qed

text \<open>
  C3, as the code has it. In a world whose working directory and restore root are
  normalised existing directories, when the archive has a member whose destination, as an
  absolute path string, does not start with the string of the restore root, \<^verbatim>\<open>cmd_restore\<close>
  raises the exception \<^verbatim>\<open>Attempted Path Traversal in Tar File\<close> (the same text for every
  member) and leaves the world exactly as it was: nothing is written, whatever the other
  members are.
\<close>

theorem restore_rejects_path_traversal:
  assumes "read_file w args_manifest = Inr text"
    and "json_load E text = Some manifest"
    and "generate_checksum E w (path_of_str (archive_name manifest))
           (checksum_algorithm manifest) = Inr (checksum manifest)"
    and "tarfile_open E w (archive_name manifest) = Inr tar"
    and "clean_key (cwd w)" and "is_dir w (cwd w)"
    and "clean_key (abs_key w args_path)" and "is_dir w (abs_key w args_path)"
    and "member \<in> set tar"
    and "\<not> prefix (key_str (abs_key w args_path))
             (key_str (abs_key (w\<lparr>cwd := abs_key w args_path\<rparr>)
                         (path_of_str (os_path_join ''.'' (fst member)))))"
  shows "cmd_restore E args_manifest args_path w =
           (Inl (Exception ''Attempted Path Traversal in Tar File''), w)"
proof -
  let ?w1 = "w\<lparr>cwd := abs_key w args_path\<rparr>"
  have "\<not> is_within_directory ?w1 ''.'' (os_path_join ''.'' (fst member))"
    using assms(7,10) by (intro guard_rejects) simp_all
  from check_members_rejects[OF assms(9) this]
  have "safe_extract tar ?w1 = (Inl (Exception ''Attempted Path Traversal in Tar File''), ?w1)"
    by (simp add: safe_extract_def)
  from cd_body_raises[where body = "safe_extract tar", OF assms(8) assms(6)
      clean_key_no_dotdot[OF assms(5)] this]
  show ?thesis using assms(1-4) by (simp add: cmd_restore_def)
qed

theorem restore_rejects_path_traversal_witness:
  "read_file (world_with ''V'' traversal_manifest) (Path False [''a.manifest'']) =
     Inr (json_dump traversal_manifest)
   \<and> json_load example_env (json_dump traversal_manifest) = Some traversal_manifest
   \<and> generate_checksum example_env (world_with ''V'' traversal_manifest)
        (path_of_str (archive_name traversal_manifest))
        (checksum_algorithm traversal_manifest) = Inr (checksum traversal_manifest)
   \<and> tarfile_open example_env (world_with ''V'' traversal_manifest)
        (archive_name traversal_manifest) = Inr [(''../x'', ''x'')]
   \<and> clean_key (cwd (world_with ''V'' traversal_manifest))
   \<and> is_dir (world_with ''V'' traversal_manifest) (cwd (world_with ''V'' traversal_manifest))
   \<and> abs_key (world_with ''V'' traversal_manifest) (Path False [''r'']) = [''w'', ''r'']
   \<and> clean_key [''w'', ''r'']
   \<and> is_dir (world_with ''V'' traversal_manifest) [''w'', ''r'']
   \<and> abs_key ((world_with ''V'' traversal_manifest)\<lparr>cwd := [''w'', ''r'']\<rparr>)
        (path_of_str (os_path_join ''.'' ''../x'')) = [''w'', ''x'']
   \<and> \<not> prefix (key_str [''w'', ''r'']) (key_str [''w'', ''x''])
   \<and> cmd_restore example_env (Path False [''a.manifest'']) (Path False [''r''])
        (world_with ''V'' traversal_manifest) =
       (Inl (Exception ''Attempted Path Traversal in Tar File''),
        world_with ''V'' traversal_manifest)"
proof -
  let ?w = "world_with ''V'' traversal_manifest"
  have h1: "read_file ?w (Path False [''a.manifest'']) = Inr (json_dump traversal_manifest)"
    by (simp add: read_file_def abs_key_def world_with_def example_world_def)
  have h3: "generate_checksum example_env ?w (path_of_str (archive_name traversal_manifest))
        (checksum_algorithm traversal_manifest) = Inr (checksum traversal_manifest)"
    by (simp add: example_defs eval_defs)
  have h4: "tarfile_open example_env ?w (archive_name traversal_manifest) =
              Inr [(''../x'', ''x'')]"
    by (simp add: tarfile_open_def example_defs eval_defs)
  have h5: "clean_key (cwd ?w)"
    by (simp add: world_with_def example_world_def clean_key_def clean_comp_def)
  have h6: "is_dir ?w (cwd ?w)"
    by (simp add: world_with_def example_world_def is_dir_def)
  have k: "abs_key ?w (Path False [''r'']) = [''w'', ''r'']"
    by (simp add: world_with_def example_world_def abs_key_def)
  have h7: "clean_key [''w'', ''r'']"
    by (simp add: clean_key_def clean_comp_def)
  have h8: "is_dir ?w [''w'', ''r'']"
    by (simp add: world_with_def example_world_def is_dir_def)
  have d: "abs_key (?w\<lparr>cwd := [''w'', ''r'']\<rparr>) (path_of_str (os_path_join ''.'' ''../x'')) =
             [''w'', ''x'']"
    by (simp add: os_path_join_def eval_defs)
  have h10: "\<not> prefix (key_str [''w'', ''r'']) (key_str [''w'', ''x''])"
    by (simp add: key_str_def)
  have m: "(''../x'', ''x'') \<in> set [(''../x'', ''x'')]" by simp
  from restore_rejects_path_traversal
         [of ?w "Path False [''a.manifest'']" "json_dump traversal_manifest" example_env
            traversal_manifest "[(''../x'', ''x'')]" "Path False [''r'']" "(''../x'', ''x'')"]
       h1 json_load_traversal h3 h4 h5 h6 h7 h8 m d h10 k
  show ?thesis by simp
qed

text \<open>
  The claim as the specification states it fails twice. The exception does not name the
  member; and the guard compares strings, so the member \<^verbatim>\<open>../rr/x\<close> restored into \<^verbatim>\<open>/w/r\<close>
  passes it and is written to \<^verbatim>\<open>/w/rr/x\<close>, outside the restore root.
\<close>

lemma restore_sibling_example:
  "cmd_restore example_env (Path False [''a.manifest'']) (Path False [''r''])
     (world_with ''S'' sibling_manifest) =
   (Inr EX_DATAERR,
    (world_with ''S'' sibling_manifest)
      \<lparr>fs_files := fs_files (world_with ''S'' sibling_manifest) @ [([''w'', ''rr'', ''x''], ''x'')],
       fs_dirs := fs_dirs (world_with ''S'' sibling_manifest) @ [[''w'', ''rr'']],
       stderr := [''Missing paths: d/f'', ''Backup restoration failed'']\<rparr>)"
  by (simp add: cmd_restore_def json_load_sibling world_with_def example_world_def
      read_file_def abs_key_def)
     (simp add: example_defs eval_defs restore_defs)

theorem restore_traversal_counterexample:
  "tarfile_open example_env (world_with ''V'' traversal_manifest)
     (archive_name traversal_manifest) = Inr [(''../x'', ''x'')]
   \<and> cmd_restore example_env (Path False [''a.manifest'']) (Path False [''r''])
       (world_with ''V'' traversal_manifest) =
      (Inl (Exception ''Attempted Path Traversal in Tar File''),
       world_with ''V'' traversal_manifest)
   \<and> \<not> sublist ''../x'' ''Attempted Path Traversal in Tar File''
   \<and> tarfile_open example_env (world_with ''S'' sibling_manifest)
       (archive_name sibling_manifest) = Inr [(''../rr/x'', ''x'')]
   \<and> abs_key ((world_with ''S'' sibling_manifest)\<lparr>cwd := [''w'', ''r'']\<rparr>)
        (path_of_str (os_path_join ''.'' ''../rr/x'')) = [''w'', ''rr'', ''x'']
   \<and> \<not> prefix [''w'', ''r''] [''w'', ''rr'', ''x'']
   \<and> fst (cmd_restore example_env (Path False [''a.manifest'']) (Path False [''r''])
            (world_with ''S'' sibling_manifest)) = Inr EX_DATAERR
   \<and> map_of (fs_files (world_with ''S'' sibling_manifest)) [''w'', ''rr'', ''x''] = None
   \<and> map_of (fs_files (snd (cmd_restore example_env (Path False [''a.manifest''])
                                (Path False [''r'']) (world_with ''S'' sibling_manifest))))
        [''w'', ''rr'', ''x''] = Some ''x''"
proof -
  have t1: "tarfile_open example_env (world_with ''V'' traversal_manifest)
     (archive_name traversal_manifest) = Inr [(''../x'', ''x'')]"
    by (simp add: tarfile_open_def example_defs eval_defs)
  have t2: "tarfile_open example_env (world_with ''S'' sibling_manifest)
       (archive_name sibling_manifest) = Inr [(''../rr/x'', ''x'')]"
    by (simp add: tarfile_open_def example_defs eval_defs)
  have s: "\<not> sublist ''../x'' ''Attempted Path Traversal in Tar File''"
    by (simp add: sublist_code)
  have d: "abs_key ((world_with ''S'' sibling_manifest)\<lparr>cwd := [''w'', ''r'']\<rparr>)
        (path_of_str (os_path_join ''.'' ''../rr/x'')) = [''w'', ''rr'', ''x'']"
    by (simp add: os_path_join_def eval_defs)
  have n: "map_of (fs_files (world_with ''S'' sibling_manifest)) [''w'', ''rr'', ''x''] = None"
    by (simp add: world_with_def)
  show ?thesis
    using t1 t2 s d n restore_traversal_example
    by (simp add: restore_sibling_example) (simp add: world_with_def)
qed

section \<open>Backup and restore\<close>

subsection \<open>Maps built by successive updates\<close>

lemma fold_upd_other:
  "k \<notin> key ` set xs \<Longrightarrow> fold (\<lambda>x m. m(key x \<mapsto> val x)) xs m0 k = m0 k"
  by (induction xs arbitrary: m0) (auto simp del: fun_upd_apply simp add: fun_upd_same fun_upd_other)

lemma fold_upd_distinct:
  "distinct (map key xs) \<Longrightarrow> x \<in> set xs \<Longrightarrow>
   fold (\<lambda>x m. m(key x \<mapsto> val x)) xs m0 (key x) = Some (val x)"
proof (induction xs arbitrary: m0)
  case Nil
  then show ?case by simp
next
  case (Cons y ys)
  show ?case
  proof (cases "x = y")
    case True
    with Cons.prems have "key y \<notin> key ` set ys" by auto
    from fold_upd_other[OF this, of val "m0(key y \<mapsto> val y)"] True show ?thesis
      by (simp del: fun_upd_apply add: fun_upd_same)
  next
    case False
    with Cons show ?thesis by (auto simp del: fun_upd_apply simp add: fun_upd_same fun_upd_other)
  qed
qed

lemma map_of_foldl_update:
  "map_of (foldl (\<lambda>d x. AList.update (key x) (val x) d) d0 xs) =
     fold (\<lambda>x m. m(key x \<mapsto> val x)) xs (map_of d0)"
  by (induction xs arbitrary: d0) (auto simp: update_conv')

lemma fst_set_foldl_update:
  "fst ` set (foldl (\<lambda>d x. AList.update (key x) (val x) d) d0 xs) =
     fst ` set d0 \<union> key ` set xs"
  by (induction xs arbitrary: d0) (auto simp: dom_update)

subsection \<open>Creating directories and extracting\<close>

lemma is_dir_add [simp]:
  "is_dir (w\<lparr>fs_dirs := fs_dirs w @ [d]\<rparr>) k \<longleftrightarrow> is_dir w k \<or> k = d"
  by (auto simp: is_dir_def)

lemma is_file_dirs_update [simp]: "is_file (w\<lparr>fs_dirs := ds\<rparr>) k = is_file w k"
  by (simp add: is_file_def)

lemma makedirs_ok:
  assumes "\<forall>d \<in> set ds. \<not> is_file w d"
  shows "\<exists>w1. makedirs ds w = (Inr (), w1) \<and> fs_files w1 = fs_files w \<and> cwd w1 = cwd w
              \<and> stdout w1 = stdout w \<and> stderr w1 = stderr w
              \<and> (\<forall>k. is_dir w1 k \<longleftrightarrow> is_dir w k \<or> k \<in> set ds)"
  using assms
proof (induction ds arbitrary: w)
  case Nil
  then show ?case by simp
next
  case (Cons d ds)
  show ?case
  proof (cases "is_dir w d")
    case True
    from Cons.IH[of w] Cons.prems obtain w1 where
      "makedirs ds w = (Inr (), w1)" "fs_files w1 = fs_files w" "cwd w1 = cwd w"
      "stdout w1 = stdout w" "stderr w1 = stderr w"
      "\<forall>k. is_dir w1 k \<longleftrightarrow> is_dir w k \<or> k \<in> set ds"
      by auto
    with True show ?thesis by auto
  next
    case False
    let ?w = "w\<lparr>fs_dirs := fs_dirs w @ [d]\<rparr>"
    have "\<forall>d \<in> set ds. \<not> is_file ?w d" using Cons.prems by simp
    from Cons.IH[OF this] obtain w1 where
      "makedirs ds ?w = (Inr (), w1)" "fs_files w1 = fs_files ?w" "cwd w1 = cwd ?w"
      "stdout w1 = stdout ?w" "stderr w1 = stderr ?w"
      "\<forall>k. is_dir w1 k \<longleftrightarrow> is_dir ?w k \<or> k \<in> set ds"
      by blast
    with False Cons.prems show ?thesis by auto
  qed
qed

lemma abs_key_member_dest:
  "abs_key w (path_of_str (os_path_join ''.'' (fst member))) = member_dest (cwd w) member"
  by (simp add: abs_key_def member_dest_def os_path_join_dot path_of_str_def startswith_def)

lemma extract_member_ok:
  assumes "\<forall>p. strict_prefix p (member_dest (cwd w) member) \<longrightarrow> \<not> is_file w p"
    and "\<not> is_dir w (member_dest (cwd w) member)"
  shows "\<exists>w1. extract_member ''.'' member w = (Inr (), w1) \<and> cwd w1 = cwd w
              \<and> stdout w1 = stdout w \<and> stderr w1 = stderr w
              \<and> map_of (fs_files w1) = (map_of (fs_files w))(member_dest (cwd w) member \<mapsto> snd member)
              \<and> (\<forall>k. is_dir w1 k \<longleftrightarrow> is_dir w k \<or> strict_prefix k (member_dest (cwd w) member))"
proof -
  let ?k = "member_dest (cwd w) member"
  let ?p = "path_of_str (os_path_join ''.'' (fst member))"
  have kne: "?k \<noteq> []" using assms(2) by (auto simp: is_dir_def)
  have sp: "p \<in> set (prefixes (butlast ?k)) \<longleftrightarrow> strict_prefix p ?k" for p
    using kne by (metis in_set_prefixes prefix_snoc snoc_eq_iff_butlast strict_prefix_def
        append_butlast_last_id prefix_order.less_le_not_le not_prefix_butlast prefix_order.trans
        prefixeq_butlast)
  have "\<forall>d \<in> set (prefixes (butlast ?k)). \<not> is_file w d" using assms(1) sp by blast
  from makedirs_ok[OF this] obtain w0 where
    m: "makedirs (prefixes (butlast ?k)) w = (Inr (), w0)" and f0: "fs_files w0 = fs_files w"
    and c0: "cwd w0 = cwd w" and o0: "stdout w0 = stdout w" "stderr w0 = stderr w"
    and d0: "\<forall>k. is_dir w0 k \<longleftrightarrow> is_dir w k \<or> k \<in> set (prefixes (butlast ?k))"
    by blast
  have k0: "abs_key w0 ?p = ?k" using abs_key_member_dest[of w0 member] c0 by simp
  have nd: "\<not> is_dir w0 ?k" using d0 assms(2) sp by auto
  have nf: "\<not> list_ex (is_file w0) (prefixes (butlast ?k))"
    using assms(1) sp f0 by (auto simp: list_ex_iff is_file_def)
  have pd: "is_dir w0 (butlast ?k)" using d0 by simp
  have wr: "write_file ?p (snd member) w0 =
              (Inr (), w0\<lparr>fs_files := AList.update ?k (snd member) (fs_files w0)\<rparr>)"
    using nd nf pd by (simp add: write_file_def k0)
  have "extract_member ''.'' member w =
          (Inr (), w0\<lparr>fs_files := AList.update ?k (snd member) (fs_files w0)\<rparr>)"
    using m wr by (simp add: extract_member_def abs_key_member_dest)
  then show ?thesis
    using c0 o0 f0 d0 sp by (auto simp: update_conv' is_dir_def)
qed

lemma extractall_ok:
  assumes "\<forall>m \<in> set ms. \<forall>p. strict_prefix p (member_dest (cwd w) m) \<longrightarrow> \<not> is_file w p"
    and "\<forall>m \<in> set ms. \<not> is_dir w (member_dest (cwd w) m)"
    and "\<forall>m \<in> set ms. \<forall>m' \<in> set ms.
           \<not> strict_prefix (member_dest (cwd w) m) (member_dest (cwd w) m')"
  shows "\<exists>w1. extractall ''.'' ms w = (Inr (), w1) \<and> cwd w1 = cwd w
              \<and> stdout w1 = stdout w \<and> stderr w1 = stderr w
              \<and> map_of (fs_files w1) =
                  fold (\<lambda>m f. f(member_dest (cwd w) m \<mapsto> snd m)) ms (map_of (fs_files w))
              \<and> (\<forall>k. is_dir w k \<longrightarrow> is_dir w1 k)"
  using assms
proof (induction ms arbitrary: w)
  case Nil
  then show ?case by simp
next
  case (Cons m ms)
  let ?R = "cwd w"
  have a: "\<forall>p. strict_prefix p (member_dest ?R m) \<longrightarrow> \<not> is_file w p"
    and b: "\<not> is_dir w (member_dest ?R m)"
    using Cons.prems by auto
  from extract_member_ok[OF a b] obtain w0 where
    e: "extract_member ''.'' m w = (Inr (), w0)" and c0: "cwd w0 = cwd w"
    and o0: "stdout w0 = stdout w" "stderr w0 = stderr w"
    and f0: "map_of (fs_files w0) = (map_of (fs_files w))(member_dest ?R m \<mapsto> snd m)"
    and d0: "\<forall>k. is_dir w0 k \<longleftrightarrow> is_dir w k \<or> strict_prefix k (member_dest ?R m)"
    by blast
  have file0: "is_file w0 p \<longleftrightarrow> is_file w p \<or> p = member_dest ?R m" for p
    by (simp add: is_file_def f0)
  have a': "\<forall>m' \<in> set ms. \<forall>p. strict_prefix p (member_dest (cwd w0) m') \<longrightarrow> \<not> is_file w0 p"
    using Cons.prems(1,3) by (auto simp: c0 file0)
  have b': "\<forall>m' \<in> set ms. \<not> is_dir w0 (member_dest (cwd w0) m')"
    using Cons.prems(2,3) by (auto simp: c0 d0)
  have c': "\<forall>m1 \<in> set ms. \<forall>m2 \<in> set ms.
              \<not> strict_prefix (member_dest (cwd w0) m1) (member_dest (cwd w0) m2)"
    using Cons.prems(3) by (auto simp: c0)
  from Cons.IH[OF a' b' c'] obtain w1 where
    "extractall ''.'' ms w0 = (Inr (), w1)" "cwd w1 = cwd w0"
    "stdout w1 = stdout w0" "stderr w1 = stderr w0"
    "map_of (fs_files w1) =
       fold (\<lambda>m f. f(member_dest (cwd w0) m \<mapsto> snd m)) ms (map_of (fs_files w0))"
    "\<forall>k. is_dir w0 k \<longrightarrow> is_dir w1 k"
    by blast
  with e c0 o0 f0 d0 show ?case by (auto simp del: fun_upd_apply)
qed

subsection \<open>A reconciliation in which every checksum matches\<close>

lemma relative_to_path_join:
  "relative_to (path_join args_path rel) args_path = Inr (Path False rel)"
  by (simp add: relative_to_def path_join_def)

lemma reconcile_scan_all_good:
  assumes "\<forall>rel \<in> set rels.
             (case map_of pcs (str_of_path (Path False rel)) of
                None \<Rightarrow> True
              | Some e \<Rightarrow> generate_checksum E w (Path False rel) alg = Inr e)"
  shows "\<exists>restored.
           reconcile_scan E w args_path alg pcs rels (bad, restored0) = Inr (bad, restored)
         \<and> set restored =
             set restored0 \<union>
             {str_of_path (Path False rel) | rel.
                rel \<in> set rels \<and> map_of pcs (str_of_path (Path False rel)) \<noteq> None}"
  using assms
proof (induction rels arbitrary: restored0)
  case Nil
  then show ?case by simp
next
  case (Cons rel rels)
  let ?s = "str_of_path (Path False rel)"
  have rest: "\<forall>rel \<in> set rels.
             (case map_of pcs (str_of_path (Path False rel)) of
                None \<Rightarrow> True
              | Some e \<Rightarrow> generate_checksum E w (Path False rel) alg = Inr e)"
    using Cons.prems by simp
  show ?case
  proof (cases "map_of pcs ?s")
    case None
    from Cons.IH[OF rest, of restored0] obtain restored where
      "reconcile_scan E w args_path alg pcs rels (bad, restored0) = Inr (bad, restored)"
      "set restored = set restored0 \<union>
             {str_of_path (Path False rel) | rel.
                rel \<in> set rels \<and> map_of pcs (str_of_path (Path False rel)) \<noteq> None}"
      by blast
    with None show ?thesis by (auto simp: relative_to_path_join)
  next
    case (Some e)
    with Cons.prems have g: "generate_checksum E w (Path False rel) alg = Inr e" by simp
    from Cons.IH[OF rest, of "List.insert ?s restored0"] obtain restored where
      "reconcile_scan E w args_path alg pcs rels (bad, List.insert ?s restored0) =
         Inr (bad, restored)"
      "set restored = set (List.insert ?s restored0) \<union>
             {str_of_path (Path False rel) | rel.
                rel \<in> set rels \<and> map_of pcs (str_of_path (Path False rel)) \<noteq> None}"
      by blast
    with Some g show ?thesis by (auto simp: relative_to_path_join)
  qed
qed

subsection \<open>Paths of clean components\<close>

lemma path_of_str_join:
  assumes "clean_key rel" and "rel \<noteq> []"
  shows "path_of_str (join_sep ''/'' rel) = Path False rel"
proof -
  have ns: "\<not> startswith (join_sep ''/'' rel) ''/''"
    using join_clean_not_slash[OF assms] by (simp add: startswith_slash)
  have sp: "split_sep (join_sep ''/'' rel) = rel"
    by (rule split_join[OF assms(2) clean_key_no_slash[OF assms(1)]])
  show ?thesis
    unfolding path_of_str_def sp using ns clean_key_filter[OF assms(1)] by simp
qed

lemma str_of_path_relative: "rel \<noteq> [] \<Longrightarrow> str_of_path (Path False rel) = join_sep ''/'' rel"
  by (simp add: str_of_path_def)

lemma join_sep_inj:
  assumes "clean_key a" "a \<noteq> []" "clean_key b" "b \<noteq> []"
    and "join_sep ''/'' a = join_sep ''/'' b"
  shows "a = b"
proof -
  have "a = split_sep (join_sep ''/'' a)"
    by (rule split_join[OF assms(2) clean_key_no_slash[OF assms(1)], symmetric])
  also have "\<dots> = split_sep (join_sep ''/'' b)" by (simp only: assms(5))
  also have "\<dots> = b" by (rule split_join[OF assms(4) clean_key_no_slash[OF assms(3)]])
  finally show ?thesis .
qed

lemma split_sep_dot_slash: "split_sep (''./'' @ s) = ''.'' # split_sep s"
  by simp

lemma member_dest_relative:
  assumes "clean_key rel" and "rel \<noteq> []"
  shows "member_dest R (join_sep ''/'' rel, b) = R @ rel"
proof -
  have ns: "\<not> startswith (join_sep ''/'' rel) ''/''"
    using join_clean_not_slash[OF assms] by (simp add: startswith_slash)
  have sp: "split_sep (join_sep ''/'' rel) = rel"
    by (rule split_join[OF assms(2) clean_key_no_slash[OF assms(1)]])
  have "parts (path_of_str (os_path_join ''.'' (join_sep ''/'' rel))) =
          filter (\<lambda>c. c \<noteq> [] \<and> c \<noteq> ''.'') (''.'' # split_sep (join_sep ''/'' rel))"
    using ns by (simp only: os_path_join_dot path_of_str_def split_sep_dot_slash if_False path.sel)
  also have "\<dots> = rel" unfolding sp using clean_key_filter[OF assms(1)] by simp
  finally have p: "parts (path_of_str (os_path_join ''.'' (join_sep ''/'' rel))) = rel" .
  have "member_dest R (join_sep ''/'' rel, b) = resolve_from R rel"
    unfolding member_dest_def fst_conv p using ns by simp
  then show ?thesis
    by (simp add: resolve_from_clean clean_key_no_dotdot[OF assms(1)])
qed

lemma abs_key_path_join:
  "''..'' \<notin> set rel \<Longrightarrow> abs_key w (path_join p rel) = abs_key w p @ rel"
  by (simp add: abs_key_def path_join_def resolve_from_append resolve_from_clean)

lemma abs_key_relative:
  "''..'' \<notin> set (cwd w) \<Longrightarrow> ''..'' \<notin> set rel \<Longrightarrow> abs_key w (Path False rel) = cwd w @ rel"
  by (simp add: abs_key_def resolve_from_clean)

subsection \<open>The files a walk finds\<close>

lemma wf_world_file:
  assumes "wf_world w" and "k \<in> fst ` set (fs_files w)"
  shows "clean_key k" and "\<not> is_dir w k" and "\<And>p. strict_prefix p k \<Longrightarrow> is_dir w p"
proof -
  from assms have f: "clean_key k \<and> \<not> is_dir w k \<and> list_all (is_dir w) (prefixes (butlast k))"
    by (auto simp: wf_world_def list_all_iff)
  then show "clean_key k" "\<not> is_dir w k" by simp_all
  fix p assume "strict_prefix p k"
  then obtain r where "k = p @ r" "r \<noteq> []" by (auto simp: strict_prefix_def prefix_def)
  then have "prefix p (butlast k)" by (simp add: butlast_append)
  with f show "is_dir w p" by (simp add: list_all_iff)
qed

lemma wf_world_dir:
  assumes "wf_world w" and "is_dir w d"
  shows "clean_key d" and "\<And>p. prefix p d \<Longrightarrow> is_dir w p"
proof -
  have a: "\<forall>d \<in> set (fs_dirs w). clean_key d \<and> (\<forall>p. prefix p d \<longrightarrow> is_dir w p)"
    using assms(1) by (simp add: wf_world_def list_all_iff)
  show "clean_key d" using assms(2) a by (auto simp: is_dir_def)
  fix p assume "prefix p d"
  show "is_dir w p"
  proof (cases "d = []")
    case True
    with \<open>prefix p d\<close> show ?thesis by (simp add: is_dir_def)
  next
    case False
    with assms(2) have "d \<in> set (fs_dirs w)" by (simp add: is_dir_def)
    with a \<open>prefix p d\<close> show ?thesis by blast
  qed
qed

lemma os_walk_rel:
  assumes "rel \<in> set (os_walk w src)"
  shows "abs_key w src @ rel \<in> fst ` set (fs_files w)" and "rel \<noteq> []"
    and "is_dir w (abs_key w src)"
proof -
  from assms have d: "is_dir w (abs_key w src)"
    by (auto simp: os_walk_def Let_def split: if_splits)
  with assms obtain k where k: "k \<in> fst ` set (fs_files w)" "strict_prefix (abs_key w src) k"
    "rel = drop (length (abs_key w src)) k"
    by (auto simp: os_walk_def Let_def)
  then obtain r where "k = abs_key w src @ r" "r \<noteq> []" by (auto simp: strict_prefix_def prefix_def)
  with k show "abs_key w src @ rel \<in> fst ` set (fs_files w)" "rel \<noteq> []" by auto
  show "is_dir w (abs_key w src)" by (rule d)
qed

lemma os_walk_distinct:
  assumes "distinct (map fst (fs_files w))"
  shows "distinct (os_walk w src)"
proof (cases "is_dir w (abs_key w src)")
  case False
  then show ?thesis by (simp add: os_walk_def)
next
  case True
  let ?S = "abs_key w src"
  have "inj_on (drop (length ?S)) (set (filter (strict_prefix ?S) (map fst (fs_files w))))"
    by (rule inj_onI) (auto simp: strict_prefix_def prefix_def)
  with assms True show ?thesis
    by (simp add: os_walk_def Let_def distinct_map distinct_map_filter del: set_filter)
qed

lemma os_walk_mem:
  assumes "is_dir w (abs_key w src)" and "k \<in> fst ` set (fs_files w)"
    and "strict_prefix (abs_key w src) k"
  shows "drop (length (abs_key w src)) k \<in> set (os_walk w src)"
  using assms by (auto simp: os_walk_def Let_def)

lemma backup_scan_entries:
  assumes "\<forall>rel \<in> set rels. ''..'' \<notin> set rel \<and> map_of (fs_files w) (abs_key w src @ rel) \<noteq> None"
    and "backup_scan E w src alg rels (ps0, ms0) = Inr (ps, ms)"
  shows "ps = ps0 @ map (\<lambda>rel. Path False (fst (backup_entry w src rel))) rels
       \<and> ms = ms0 @ map (\<lambda>rel. \<lparr>path = str_of_path (Path False (fst (backup_entry w src rel))),
                                 file_checksum =
                                   the (digest E alg (snd (backup_entry w src rel)))\<rparr>) rels
       \<and> (\<forall>rel \<in> set rels. prefix (cwd w) (abs_key w src @ rel)
             \<and> digest E alg (snd (backup_entry w src rel)) \<noteq> None)"
  using assms
proof (induction rels arbitrary: ps0 ms0)
  case Nil
  then show ?case by simp
next
  case (Cons rel rels)
  let ?k = "abs_key w src @ rel"
  from Cons.prems(1) have nd: "''..'' \<notin> set rel" and
    ex: "map_of (fs_files w) ?k \<noteq> None" by auto
  then obtain c where c: "map_of (fs_files w) ?k = Some c" by auto
  have key: "abs_key w (path_join src rel) = ?k" using nd by (rule abs_key_path_join)
  have rt: "relative_to (resolve w (path_join src rel)) (Path_cwd w) =
              (if prefix (cwd w) ?k then Inr (Path False (drop (length (cwd w)) ?k))
               else Inl (ValueError
                           (repr (str_of_path (Path True ?k)) @ '' is not in the subpath of '' @
                            repr (''/'' @ join_sep ''/'' (cwd w)) @
                            '' OR one path is relative and the other is absolute.'')))"
    by (simp add: relative_to_def resolve_def Path_cwd_def key)
  have gc: "generate_checksum E w (path_join src rel) alg =
              (case digest E alg c of
                 None \<Rightarrow> Inl (ValueError (''unsupported hash type '' @ alg))
               | Some h \<Rightarrow> Inr h)"
    by (simp add: generate_checksum_def read_file_def key c)
  from Cons.prems(2) rt have pre: "prefix (cwd w) ?k"
    by (auto simp: Let_def split: if_splits)
  from Cons.prems(2) rt gc pre obtain h where h: "digest E alg c = Some h"
    by (auto simp: Let_def split: option.splits)
  have e: "backup_entry w src rel = (drop (length (cwd w)) ?k, c)"
    by (simp add: backup_entry_def c)
  from Cons.prems(2) rt gc pre h have
    "backup_scan E w src alg rels
       (ps0 @ [Path False (drop (length (cwd w)) ?k)],
        ms0 @ [\<lparr>path = str_of_path (Path False (drop (length (cwd w)) ?k)),
                file_checksum = h\<rparr>]) = Inr (ps, ms)"
    by (simp add: Let_def)
  from Cons.IH[OF _ this] Cons.prems(1) pre h e show ?case by simp
qed

lemma tar_add_all_entries:
  assumes "''..'' \<notin> set (cwd w0)"
    and "\<forall>e \<in> set es. clean_key (fst e) \<and> fst e \<noteq> [] \<and> cwd w0 @ fst e \<noteq> tar_key
           \<and> map_of (fs_files w0) (cwd w0 @ fst e) = Some (snd e)"
  shows "tar_add_all w0 tar_key (map (\<lambda>e. Path False (fst e)) es) acc =
           Inr (acc @ map (\<lambda>e. (join_sep ''/'' (fst e), snd e)) es)"
  using assms(2)
proof (induction es arbitrary: acc)
  case Nil
  then show ?case by simp
next
  case (Cons e es)
  from Cons.prems have cl: "clean_key (fst e)" and ne: "fst e \<noteq> []"
    and nk: "cwd w0 @ fst e \<noteq> tar_key"
    and c: "map_of (fs_files w0) (cwd w0 @ fst e) = Some (snd e)" by auto
  have s: "str_of_path (Path False (fst e)) = join_sep ''/'' (fst e)"
    using ne by (rule str_of_path_relative)
  have p: "path_of_str (join_sep ''/'' (fst e)) = Path False (fst e)"
    using cl ne by (rule path_of_str_join)
  have k: "abs_key w0 (Path False (fst e)) = cwd w0 @ fst e"
    using assms(1) clean_key_no_dotdot[OF cl] by (rule abs_key_relative)
  have r: "read_file w0 (Path False (fst e)) = Inr (snd e)"
    by (simp add: read_file_def k c)
  have d: "dropWhile (\<lambda>c. c = CHR ''/'') (join_sep ''/'' (fst e)) = join_sep ''/'' (fst e)"
    using join_clean_not_slash[OF cl ne] by (cases "join_sep ''/'' (fst e)") auto
  have "tar_add_all w0 tar_key (map (\<lambda>e. Path False (fst e)) (e # es)) acc =
          tar_add_all w0 tar_key (map (\<lambda>e. Path False (fst e)) es)
            (acc @ [(join_sep ''/'' (fst e), snd e)])"
    using nk by (simp add: s p k r d)
  also have "\<dots> = Inr ((acc @ [(join_sep ''/'' (fst e), snd e)]) @
                       map (\<lambda>e. (join_sep ''/'' (fst e), snd e)) es)"
    using Cons.prems by (intro Cons.IH) simp
  finally show ?case by simp
qed

lemma key_str_prefix: "prefix (key_str R) (key_str (R @ rel))"
proof (cases "R = [] \<or> rel = []")
  case True
  then show ?thesis by (auto simp: key_str_def)
next
  case False
  then show ?thesis by (simp add: key_str_def join_sep_append)
qed

lemma is_file_iff: "is_file w k \<longleftrightarrow> k \<in> fst ` set (fs_files w)"
  by (simp add: is_file_def map_of_eq_None_iff)

lemma is_file_cwd_update [simp]: "is_file (w\<lparr>cwd := k\<rparr>) p = is_file w p"
  by (simp add: is_file_def)

text \<open>The extraction of members with clean relative names into an empty directory.\<close>

lemma safe_extract_entries:
  assumes R: "cwd w = R" "clean_key R"
    and above: "\<forall>p. prefix p R \<longrightarrow> \<not> is_file w p"
    and empty: "\<forall>k. strict_prefix R k \<longrightarrow> \<not> is_file w k \<and> \<not> is_dir w k"
    and es: "\<forall>e \<in> set es. clean_key (fst e) \<and> fst e \<noteq> []"
    and anti: "\<forall>e \<in> set es. \<forall>e' \<in> set es. \<not> strict_prefix (fst e) (fst e')"
  shows "\<exists>w2. safe_extract (map (\<lambda>e. (join_sep ''/'' (fst e), snd e)) es) w = (Inr (), w2)
              \<and> cwd w2 = R \<and> stdout w2 = stdout w \<and> stderr w2 = stderr w
              \<and> map_of (fs_files w2) =
                  fold (\<lambda>e f. f(R @ fst e \<mapsto> snd e)) es (map_of (fs_files w))
              \<and> (\<forall>k. is_dir w k \<longrightarrow> is_dir w2 k)"
proof -
  let ?g = "\<lambda>e. (join_sep ''/'' (fst e), snd e)"
  let ?ms = "map ?g es"
  have dest: "member_dest R (?g e) = R @ fst e" if "e \<in> set es" for e
    using es that by (simp add: member_dest_relative)
  have within: "\<forall>member \<in> set ?ms. is_within_directory w ''.'' (os_path_join ''.'' (fst member))"
  proof
    fix member assume "member \<in> set ?ms"
    then obtain e where e: "e \<in> set es" "member = ?g e" by auto
    with es have cl: "clean_key (fst e)" "fst e \<noteq> []" by auto
    have ns: "\<not> startswith (fst member) ''/''"
      using join_clean_not_slash[OF cl] e by (simp add: startswith_slash)
    have "abs_key w (path_of_str (os_path_join ''.'' (fst member))) = R @ fst e"
      using abs_key_member_dest[of w member] dest[OF e(1)] e(2) R(1) by simp
    with guard_relative[of w "fst member"] R ns show
      "is_within_directory w ''.'' (os_path_join ''.'' (fst member))"
      by (simp add: key_str_prefix)
  qed
  have a: "\<forall>m \<in> set ?ms. \<forall>p. strict_prefix p (member_dest (cwd w) m) \<longrightarrow> \<not> is_file w p"
  proof (intro ballI allI impI)
    fix m p assume "m \<in> set ?ms" and sp: "strict_prefix p (member_dest (cwd w) m)"
    then obtain e where e: "e \<in> set es" "m = ?g e" by auto
    with sp dest[OF e(1)] R(1) have "strict_prefix p (R @ fst e)" by simp
    then have "prefix p (R @ fst e)" by (simp add: strict_prefix_def)
    then consider "prefix p R" | q where "p = R @ q" "q \<noteq> []"
      by (auto simp: prefix_append) (metis append_Nil2 prefix_order.order_refl)
    then show "\<not> is_file w p"
    proof cases
      case 1
      with above show ?thesis by simp
    next
      case 2
      then have "strict_prefix R p" by (simp add: strict_prefix_def)
      with empty show ?thesis by simp
    qed
  qed
  have b: "\<forall>m \<in> set ?ms. \<not> is_dir w (member_dest (cwd w) m)"
  proof
    fix m assume "m \<in> set ?ms"
    then obtain e where e: "e \<in> set es" "m = ?g e" by auto
    with es have "fst e \<noteq> []" by auto
    then have "strict_prefix R (R @ fst e)" by (simp add: strict_prefix_def)
    with empty dest[OF e(1)] e(2) R(1) show "\<not> is_dir w (member_dest (cwd w) m)" by simp
  qed
  have c: "\<forall>m \<in> set ?ms. \<forall>m' \<in> set ?ms.
             \<not> strict_prefix (member_dest (cwd w) m) (member_dest (cwd w) m')"
  proof (intro ballI)
    fix m m' assume "m \<in> set ?ms" "m' \<in> set ?ms"
    then obtain e e' where e: "e \<in> set es" "m = ?g e" "e' \<in> set es" "m' = ?g e'" by auto
    with anti have "\<not> strict_prefix (fst e) (fst e')" by simp
    then have "\<not> strict_prefix (R @ fst e) (R @ fst e')" by (simp add: strict_prefix_def)
    with dest[OF e(1)] dest[OF e(3)] e(2,4) R(1) show
      "\<not> strict_prefix (member_dest (cwd w) m) (member_dest (cwd w) m')" by simp
  qed
  from extractall_ok[OF a b c] obtain w2 where
    x: "extractall ''.'' ?ms w = (Inr (), w2)" and c2: "cwd w2 = cwd w"
    and o2: "stdout w2 = stdout w" "stderr w2 = stderr w"
    and f2: "map_of (fs_files w2) =
               fold (\<lambda>m f. f(member_dest (cwd w) m \<mapsto> snd m)) ?ms (map_of (fs_files w))"
    and d2: "\<forall>k. is_dir w k \<longrightarrow> is_dir w2 k"
    by blast
  have "fold (\<lambda>m f. f(member_dest (cwd w) m \<mapsto> snd m)) ?ms (map_of (fs_files w)) =
          fold (\<lambda>e f. f(R @ fst e \<mapsto> snd e)) es (map_of (fs_files w))"
    unfolding fold_map
    by (rule fold_cong) (auto simp: R(1) dest simp del: fun_upd_apply)
  with f2 have f2': "map_of (fs_files w2) =
                       fold (\<lambda>e f. f(R @ fst e \<mapsto> snd e)) es (map_of (fs_files w))"
    by simp
  have "safe_extract ?ms w = (Inr (), w2)"
    using check_members_accepts[OF within] x by (simp add: safe_extract_def)
  with c2 o2 f2' d2 R(1) show ?thesis by blast
qed

text \<open>
  Restoring an archive whose members are the entries \<open>es\<close>, with a manifest that lists
  them, into an empty directory, in a world where the working directory still holds a file
  of the same content at every entry's path.
\<close>

lemma restore_entries:
  fixes es :: "(string list \<times> bytes) list"
  defines "members \<equiv> map (\<lambda>e. (join_sep ''/'' (fst e), snd e)) es"
  assumes cw: "clean_key (cwd w1)" "is_dir w1 (cwd w1)"
    and es: "\<forall>e \<in> set es. clean_key (fst e) \<and> fst e \<noteq> []
               \<and> map_of (fs_files w1) (cwd w1 @ fst e) = Some (snd e)
               \<and> digest E (checksum_algorithm m) (snd e) \<noteq> None"
    and dist: "distinct (map fst es)"
    and anti: "\<forall>e \<in> set es. \<forall>e' \<in> set es. \<not> strict_prefix (fst e) (fst e')"
    and man: "read_file w1 am = Inr mtext" "json_load E mtext = Some m"
      "files m = map (\<lambda>e. \<lparr>path = join_sep ''/'' (fst e),
                             file_checksum = the (digest E (checksum_algorithm m) (snd e))\<rparr>) es"
    and arch: "read_file w1 (path_of_str (archive_name m)) = Inr ab"
      "digest E (checksum_algorithm m) ab = Some (checksum m)"
      "tar_unpack E ab = Some members"
    and root: "R = abs_key w1 dst" "is_dir w1 R" "clean_key R"
    and above: "\<forall>p. prefix p R \<longrightarrow> \<not> is_file w1 p"
    and empty: "\<forall>k. strict_prefix R k \<longrightarrow> \<not> is_file w1 k \<and> \<not> is_dir w1 k"
  shows "\<exists>w2. cmd_restore E am dst w1 = (Inr EX_OK, w2)
              \<and> stdout w2 = stdout w1 @ [''Backup restored successfully'']
              \<and> stderr w2 = stderr w1 \<and> cwd w2 = cwd w1
              \<and> (\<forall>e \<in> set es. map_of (fs_files w2) (R @ fst e) = Some (snd e))
              \<and> (\<forall>k. \<not> strict_prefix R k \<longrightarrow> map_of (fs_files w2) k = map_of (fs_files w1) k)"
proof -
  let ?alg = "checksum_algorithm m"
  let ?C = "cwd w1"
  let ?w1' = "w1\<lparr>cwd := R\<rparr>"
  \<comment> \<open>the extraction\<close>
  have es': "\<forall>e \<in> set es. clean_key (fst e) \<and> fst e \<noteq> []" using es by simp
  have "\<exists>w2. safe_extract members ?w1' = (Inr (), w2)
              \<and> cwd w2 = R \<and> stdout w2 = stdout ?w1' \<and> stderr w2 = stderr ?w1'
              \<and> map_of (fs_files w2) =
                  fold (\<lambda>e f. f(R @ fst e \<mapsto> snd e)) es (map_of (fs_files ?w1'))
              \<and> (\<forall>k. is_dir ?w1' k \<longrightarrow> is_dir w2 k)"
    unfolding members_def
    using root(3) above empty es' anti by (intro safe_extract_entries) simp_all
  then obtain wx where
    sx: "safe_extract members ?w1' = (Inr (), wx)" and cx: "cwd wx = R"
    and ox: "stdout wx = stdout w1" "stderr wx = stderr w1"
    and fx: "map_of (fs_files wx) = fold (\<lambda>e f. f(R @ fst e \<mapsto> snd e)) es (map_of (fs_files w1))"
    and dx: "\<forall>k. is_dir w1 k \<longrightarrow> is_dir wx k"
    by auto
  define w2 where "w2 = wx\<lparr>cwd := ?C\<rparr>"
  have cdr: "cd dst (safe_extract members) w1 = (Inr (), w2)"
    unfolding w2_def
    using root(1,2) sx dx cw clean_key_no_dotdot[OF cw(1)]
    by (intro cd_result) auto
  have c2: "cwd w2 = ?C" and o2: "stdout w2 = stdout w1" "stderr w2 = stderr w1"
    and f2: "map_of (fs_files w2) = fold (\<lambda>e f. f(R @ fst e \<mapsto> snd e)) es (map_of (fs_files w1))"
    and d2: "is_dir w2 R"
    using ox fx dx root(2) by (simp_all add: w2_def)
  \<comment> \<open>the files after the extraction\<close>
  have dk: "distinct (map (\<lambda>e. R @ fst e) es)"
    using dist by (simp add: distinct_map inj_on_def)
  have at_dest: "map_of (fs_files w2) (R @ fst e) = Some (snd e)" if "e \<in> set es" for e
    unfolding f2 using fold_upd_distinct[OF dk that, of snd] by simp
  have elsewhere: "map_of (fs_files w2) k = map_of (fs_files w1) k"
    if "k \<notin> (\<lambda>e. R @ fst e) ` set es" for k
    unfolding f2 using fold_upd_other[OF that, of snd] by simp
  have outside: "map_of (fs_files w2) k = map_of (fs_files w1) k" if "\<not> strict_prefix R k" for k
  proof (rule elsewhere)
    show "k \<notin> (\<lambda>e. R @ fst e) ` set es"
    proof
      assume "k \<in> (\<lambda>e. R @ fst e) ` set es"
      then obtain e where "e \<in> set es" "k = R @ fst e" by auto
      with es' have "strict_prefix R k" by (auto simp: strict_prefix_def)
      with that show False by simp
    qed
  qed
  have below: "\<exists>e \<in> set es. k = R @ fst e"
    if "k \<in> fst ` set (fs_files w2)" "strict_prefix R k" for k
  proof (rule ccontr)
    assume "\<not> (\<exists>e \<in> set es. k = R @ fst e)"
    then have "k \<notin> (\<lambda>e. R @ fst e) ` set es" by auto
    from elsewhere[OF this] that(1) have "is_file w1 k"
      unfolding is_file_def by (metis map_of_eq_None_iff)
    with empty that(2) show False by simp
  qed
  \<comment> \<open>the checksums of the manifest\<close>
  let ?pcs = "path_checksums_of m"
  have pcs: "map_of ?pcs =
               fold (\<lambda>e f. f(join_sep ''/'' (fst e) \<mapsto> the (digest E ?alg (snd e)))) es Map.empty"
    unfolding path_checksums_of_def man(3) map_of_foldl_update fold_map
    by (simp add: comp_def)
  have dn: "distinct (map (\<lambda>e. join_sep ''/'' (fst e)) es)"
    unfolding distinct_map
  proof
    show "distinct es" using dist by (simp add: distinct_map)
    show "inj_on (\<lambda>e. join_sep ''/'' (fst e)) (set es)"
    proof (rule inj_onI)
      fix e e' assume e: "e \<in> set es" "e' \<in> set es"
        and j: "join_sep ''/'' (fst e) = join_sep ''/'' (fst e')"
      with es' have "fst e = fst e'" by (intro join_sep_inj) auto
      with dist e show "e = e'" by (auto simp: distinct_map inj_on_def)
    qed
  qed
  have expected: "map_of ?pcs (join_sep ''/'' (fst e)) = Some (the (digest E ?alg (snd e)))"
    if "e \<in> set es" for e
    unfolding pcs
    using fold_upd_distinct[OF dn that, of "\<lambda>e. the (digest E ?alg (snd e))" Map.empty]
    by simp
  have pcs_keys: "fst ` set ?pcs = (\<lambda>e. join_sep ''/'' (fst e)) ` set es"
    unfolding path_checksums_of_def man(3) fst_set_foldl_update
    by (simp add: image_image)
  \<comment> \<open>the reconciliation\<close>
  have root2: "abs_key w2 dst = R" using root(1) c2 by (simp add: abs_key_def)
  have good: "\<forall>rel \<in> set (os_walk w2 dst).
             (case map_of ?pcs (str_of_path (Path False rel)) of
                None \<Rightarrow> True
              | Some x \<Rightarrow> generate_checksum E w2 (Path False rel) ?alg = Inr x)"
  proof
    fix rel assume rel: "rel \<in> set (os_walk w2 dst)"
    from os_walk_rel[OF rel] have "R @ rel \<in> fst ` set (fs_files w2)" "rel \<noteq> []"
      by (simp_all add: root2)
    with below[of "R @ rel"] obtain e where e: "e \<in> set es" "rel = fst e"
      by (auto simp: strict_prefix_def)
    with es have cl: "clean_key rel" "rel \<noteq> []"
      and here: "map_of (fs_files w1) (?C @ rel) = Some (snd e)"
      and dg: "digest E ?alg (snd e) \<noteq> None" by auto
    have s: "str_of_path (Path False rel) = join_sep ''/'' rel"
      using cl(2) by (rule str_of_path_relative)
    have k: "abs_key w2 (Path False rel) = ?C @ rel"
      using abs_key_relative[of w2 rel] clean_key_no_dotdot[OF cw(1)] clean_key_no_dotdot[OF cl(1)]
      by (simp add: c2)
    have "\<not> strict_prefix R (?C @ rel)"
      using empty here by (auto simp: is_file_def)
    from outside[OF this] here have "map_of (fs_files w2) (?C @ rel) = Some (snd e)" by simp
    then have "generate_checksum E w2 (Path False rel) ?alg = Inr (the (digest E ?alg (snd e)))"
      using dg by (auto simp: generate_checksum_def read_file_def k)
    with expected[OF e(1)] e(2) s show
      "case map_of ?pcs (str_of_path (Path False rel)) of
         None \<Rightarrow> True
       | Some x \<Rightarrow> generate_checksum E w2 (Path False rel) ?alg = Inr x"
      by simp
  qed
  from reconcile_scan_all_good[OF good, of dst "[]" "[]"] obtain restored where
    rs: "reconcile_scan E w2 dst ?alg ?pcs (os_walk w2 dst) ([], []) = Inr ([], restored)"
    and rset: "set restored =
                 {str_of_path (Path False rel) | rel.
                    rel \<in> set (os_walk w2 dst) \<and> map_of ?pcs (str_of_path (Path False rel)) \<noteq> None}"
    by auto
  have all_restored: "\<forall>path_str \<in> fst ` set ?pcs. path_str \<in> set restored"
  proof
    fix path_str assume "path_str \<in> fst ` set ?pcs"
    with pcs_keys obtain e where e: "e \<in> set es" "path_str = join_sep ''/'' (fst e)" by auto
    with es' have cl: "clean_key (fst e)" "fst e \<noteq> []" by auto
    have "R @ fst e \<in> fst ` set (fs_files w2)"
      using at_dest[OF e(1)] by (metis domI dom_map_of_conv_image_fst)
    moreover have "strict_prefix R (R @ fst e)" using cl(2) by (simp add: strict_prefix_def)
    ultimately have "drop (length R) (R @ fst e) \<in> set (os_walk w2 dst)"
      using d2 by (intro os_walk_mem[of w2 dst, unfolded root2]) 
    then have "fst e \<in> set (os_walk w2 dst)" by simp
    moreover have "str_of_path (Path False (fst e)) = path_str"
      using e(2) str_of_path_relative[OF cl(2)] by simp
    moreover have "map_of ?pcs path_str \<noteq> None" using expected[OF e(1)] e(2) by simp
    ultimately show "path_str \<in> set restored" unfolding rset by blast
  qed
  then have missing: "filter (\<lambda>path_str. path_str \<notin> set restored) (map fst ?pcs) = []"
    by (auto simp: filter_empty_conv)
  have rc: "reconcile E m dst w2 = Inr ([], restored, [])"
    using rs missing by (simp add: reconcile_def Let_def)
  \<comment> \<open>the run\<close>
  have gc: "generate_checksum E w1 (path_of_str (archive_name m)) ?alg = Inr (checksum m)"
    using arch(1,2) by (simp add: generate_checksum_def)
  have topen: "tarfile_open E w1 (archive_name m) = Inr members"
    using arch(1,3) by (simp add: tarfile_open_def)
  have "cmd_restore E am dst w1 =
          (Inr EX_OK, print_out ''Backup restored successfully'' w2)"
    using man(1,2) gc topen cdr rc
    by (simp add: cmd_restore_def report_def Let_def)
  moreover have "\<forall>e \<in> set es. map_of (fs_files (print_out ''Backup restored successfully'' w2))
                     (R @ fst e) = Some (snd e)"
    using at_dest by (simp add: print_out_def)
  moreover have "\<forall>k. \<not> strict_prefix R k \<longrightarrow>
                   map_of (fs_files (print_out ''Backup restored successfully'' w2)) k =
                     map_of (fs_files w1) k"
    using outside by (simp add: print_out_def)
  ultimately show ?thesis
    using o2 c2 by (intro exI[of _ "print_out ''Backup restored successfully'' w2"])
      (simp add: print_out_def)
qed

lemma cmd_backup_Inr_not_dir:
  assumes "cmd_backup E src n alg w = (Inr c, w')"
  shows "\<not> is_dir w (abs_key w (tar_name n))" and "\<not> is_dir w (abs_key w (manifest_name n))"
proof -
  from assms obtain paths mfiles where
    scan: "backup_scan E w src alg (os_walk w src) ([], []) = Inr (paths, mfiles)"
    by (auto simp: cmd_backup_def Let_def split: sum.splits prod.splits)
  obtain r1 w1 where tf: "tar_files E n paths w = (r1, w1)" by (cases "tar_files E n paths w")
  with assms scan have r1: "r1 = Inr ()"
    by (auto simp: cmd_backup_def Let_def split: sum.splits prod.splits)
  obtain r0 w0 where o: "write_file (tar_name n) [] w = (r0, w0)"
    by (cases "write_file (tar_name n) [] w")
  with tf r1 have "r0 = Inr ()"
    by (cases r0) (auto simp: tar_files_def tar_name_def Let_def)
  with o show "\<not> is_dir w (abs_key w (tar_name n))"
    by (auto simp: write_file_def Let_def split: if_splits)
  from tar_files_cases[OF tf] r1 have d1: "fs_dirs w1 = fs_dirs w" and c1: "cwd w1 = cwd w"
    by auto
  from assms scan tf r1 obtain b where "write_file (manifest_name n) b w1 = (Inr (), w')"
    by (auto simp: cmd_backup_def manifest_name_def Let_def split: sum.splits prod.splits)
  then have "\<not> is_dir w1 (abs_key w1 (manifest_name n))"
    by (auto simp: write_file_def Let_def split: if_splits)
  moreover have "abs_key w1 (manifest_name n) = abs_key w (manifest_name n)"
    using c1 by (rule abs_key_cong)
  ultimately show "\<not> is_dir w (abs_key w (manifest_name n))"
    using d1 by (simp add: is_dir_def)
qed

lemma wf_example: "wf_world example_world"
  by (simp add: wf_world_def example_world_def is_dir_def clean_key_def clean_comp_def)

lemma restore_example:
  "cmd_restore example_env (manifest_name (Path False [''a''])) (Path False [''r''])
     (world_with ''T'' example_manifest) =
   (Inr EX_OK,
    (extracted (world_with ''T'' example_manifest))
      \<lparr>stdout := [''Backup restored successfully'']\<rparr>)"
  by (simp add: cmd_restore_def json_load_example world_with_def example_world_def
      read_file_def abs_key_def manifest_name_def path_of_str_def str_of_path_def startswith_def)
     (simp add: example_defs eval_defs restore_defs extracted_def)

lemma restore_changed_example:
  "cmd_restore example_env (Path False [''a.manifest'']) (Path False [''r'']) changed_world =
   (Inr EX_DATAERR,
    (extracted changed_world)
      \<lparr>stderr := [''Bad checksums: d/f: expected h:x, got h:y'', ''Missing paths: d/f'',
                   ''Backup restoration failed'']\<rparr>)"
  by (simp add: cmd_restore_def json_load_example world_with_def example_world_def
      read_file_def abs_key_def changed_world_def)
     (simp add: example_defs eval_defs restore_defs extracted_def)

lemma restore_removed_example:
  "cmd_restore example_env (Path False [''a.manifest'']) (Path False [''r'']) removed_world =
   (Inl FileNotFoundError, extracted removed_world)"
  by (simp add: cmd_restore_def json_load_example world_with_def example_world_def
      read_file_def abs_key_def removed_world_def)
     (simp add: example_defs eval_defs restore_defs extracted_def)

lemma restore_altered_example:
  "cmd_restore example_env (Path False [''a.manifest'']) (Path False [''r''])
     (world_with ''T'' altered_manifest) =
   (Inr EX_DATAERR,
    (extracted (world_with ''T'' altered_manifest))
      \<lparr>stderr := [''Bad checksums: d/f: expected h:y, got h:x'', ''Missing paths: d/f'',
                   ''Backup restoration failed'']\<rparr>)"
  by (simp add: cmd_restore_def json_load_altered world_with_def example_world_def
      read_file_def abs_key_def)
     (simp add: example_defs eval_defs restore_defs extracted_def)

lemma reconcile_altered_example:
  "reconcile example_env altered_manifest (Path False [''r''])
     (extracted (world_with ''T'' altered_manifest)) =
   Inr ([(Path False [''d'', ''f''], \<lparr>generated = ''h:x'', expected = ''h:y''\<rparr>)], [], [''d/f''])"
  by (simp add: example_defs eval_defs restore_defs extracted_def relative_to_path_join)

text \<open>
  C1, as the code has it. In a well-formed world, let \<^verbatim>\<open>cmd_backup\<close> return (so every file
  of the tree lies below the working directory), let neither the archive nor the manifest
  be one of the tree's files, and let the archive and the manifest read back as they were
  written. Then \<^verbatim>\<open>cmd_restore\<close>, run with the produced manifest in the world the backup
  left (same working directory, source files in place) into an existing empty directory,
  returns \<^verbatim>\<open>EX_OK\<close>, prints \<^verbatim>\<open>Backup restored successfully\<close> and nothing on the error
  stream, and every file of the tree has its content under the restore root at its path
  relative to the working directory.
\<close>

theorem backup_restore_round_trip:
  assumes wf: "wf_world w"
    and bk: "cmd_backup E src name alg w = (Inr c, w1)"
    and notsrc: "\<forall>rel \<in> set (os_walk w src).
                   abs_key w (path_join src rel) \<noteq> abs_key w (tar_name name) \<and>
                   abs_key w (path_join src rel) \<noteq> abs_key w (manifest_name name)"
    and unp: "\<forall>ms. read_file w1 (tar_name name) = Inr (tar_pack E ms) \<longrightarrow>
                   tar_unpack E (tar_pack E ms) = Some ms"
    and jl: "\<forall>paths mfiles b ck.
               backup_scan E w src alg (os_walk w src) ([], []) = Inr (paths, mfiles) \<longrightarrow>
               read_file w1 (tar_name name) = Inr b \<longrightarrow>
               digest E alg b = Some ck \<longrightarrow>
               json_load E
                 (json_dump \<lparr>archive_name = str_of_path name @ ''.tar.gz'', checksum = ck,
                             checksum_algorithm = alg, creation_time = time_now E,
                             files = mfiles\<rparr>) =
               Some \<lparr>archive_name = str_of_path name @ ''.tar.gz'', checksum = ck,
                     checksum_algorithm = alg, creation_time = time_now E, files = mfiles\<rparr>"
    and rootdir: "is_dir w1 (abs_key w1 dst)"
    and empty: "\<forall>k \<in> fst ` set (fs_files w1) \<union> set (fs_dirs w1).
                  \<not> strict_prefix (abs_key w1 dst) k"
  shows "\<exists>w2. cmd_restore E (manifest_name name) dst w1 = (Inr EX_OK, w2)
              \<and> stdout w2 = stdout w1 @ [''Backup restored successfully'']
              \<and> stderr w2 = stderr w1 \<and> cwd w2 = cwd w1
              \<and> (\<forall>rel \<in> set (os_walk w src).
                    \<exists>b. map_of (fs_files w) (abs_key w (path_join src rel)) = Some b
                       \<and> prefix (cwd w) (abs_key w (path_join src rel))
                       \<and> map_of (fs_files w2)
                           (abs_key w1 dst @
                              drop (length (cwd w)) (abs_key w (path_join src rel))) = Some b)"
proof -
  let ?S = "abs_key w src" and ?C = "cwd w" and ?rels = "os_walk w src"
  let ?A = "abs_key w (tar_name name)" and ?M = "abs_key w (manifest_name name)"
  let ?R = "abs_key w1 dst"
  have wfc: "clean_key ?C" "is_dir w ?C" using wf by (simp_all add: wf_world_def)
  note ndC = clean_key_no_dotdot[OF wfc(1)]
  from cmd_backup_Inr[OF bk] obtain paths mfiles members ck where
    scan: "backup_scan E w src alg ?rels ([], []) = Inr (paths, mfiles)"
    and add: "tar_add_all (archive_opened w (tar_name name)) ?A paths [] = Inr members"
    and dg: "digest E alg (tar_pack E members) = Some ck"
    and w1: "w1 = w\<lparr>fs_files :=
                   AList.update ?M
                     (json_dump \<lparr>archive_name = str_of_path name @ ''.tar.gz'', checksum = ck,
                                 checksum_algorithm = alg, creation_time = time_now E,
                                 files = mfiles\<rparr>)
                     (AList.update ?A (tar_pack E members)
                        (AList.update ?A [] (fs_files w)))\<rparr>"
    by blast
  let ?m = "\<lparr>archive_name = str_of_path name @ ''.tar.gz'', checksum = ck,
             checksum_algorithm = alg, creation_time = time_now E, files = mfiles\<rparr>"
  note nodir = cmd_backup_Inr_not_dir[OF bk]
  have AM: "?A \<noteq> ?M" by (rule tar_key_neq_manifest_key)
  have c1: "cwd w1 = ?C" and d1: "fs_dirs w1 = fs_dirs w"
    and o1: "stdout w1 = stdout w" "stderr w1 = stderr w"
    by (simp_all add: w1)
  have k1: "abs_key w1 p = abs_key w p" for p by (simp add: abs_key_def c1)
  have dir1: "is_dir w1 k = is_dir w k" for k by (simp add: is_dir_def d1)
  have f1: "map_of (fs_files w1) k =
              (if k = ?M then Some (json_dump ?m)
               else if k = ?A then Some (tar_pack E members)
               else map_of (fs_files w) k)" for k
    by (simp add: w1 update_conv')
  \<comment> \<open>the files the walk found\<close>
  have walk: "?S @ rel \<in> fst ` set (fs_files w) \<and> rel \<noteq> [] \<and> clean_key rel
                \<and> \<not> is_dir w (?S @ rel)
                \<and> abs_key w (path_join src rel) = ?S @ rel"
    if "rel \<in> set ?rels" for rel
  proof -
    from os_walk_rel[OF that] have k: "?S @ rel \<in> fst ` set (fs_files w)" and ne: "rel \<noteq> []"
      by simp_all
    from wf_world_file(1,2)[OF wf k] have cl: "clean_key rel" and nd: "\<not> is_dir w (?S @ rel)"
      by simp_all
    from abs_key_path_join[OF clean_key_no_dotdot[OF cl]] k ne cl nd show ?thesis by simp
  qed
  have pre: "\<forall>rel \<in> set ?rels. ''..'' \<notin> set rel \<and> map_of (fs_files w) (?S @ rel) \<noteq> None"
    using walk by (auto simp: map_of_eq_None_iff dest: clean_key_no_dotdot)
  from backup_scan_entries[OF pre scan] have
    paths: "paths = map (\<lambda>rel. Path False (fst (backup_entry w src rel))) ?rels"
    and mfiles: "mfiles = map (\<lambda>rel. \<lparr>path = str_of_path (Path False (fst (backup_entry w src rel))),
                                 file_checksum =
                                   the (digest E alg (snd (backup_entry w src rel)))\<rparr>) ?rels"
    and below: "\<forall>rel \<in> set ?rels. prefix ?C (?S @ rel)
                  \<and> digest E alg (snd (backup_entry w src rel)) \<noteq> None"
    by simp_all
  define es where "es = map (backup_entry w src) ?rels"
  have entry: "?C @ fst (backup_entry w src rel) = ?S @ rel
                 \<and> map_of (fs_files w) (?S @ rel) = Some (snd (backup_entry w src rel))"
    if "rel \<in> set ?rels" for rel
  proof -
    from below that have "prefix ?C (?S @ rel)" by simp
    then obtain zs where z: "?S @ rel = ?C @ zs" by (auto simp: prefix_def)
    have "?C @ drop (length ?C) (?S @ rel) = ?S @ rel"
      unfolding z by simp
    moreover from pre that obtain b where "map_of (fs_files w) (?S @ rel) = Some b" by auto
    ultimately show ?thesis by (simp add: backup_entry_def)
  qed
  have es: "clean_key (fst e) \<and> fst e \<noteq> [] \<and> ?C @ fst e \<in> fst ` set (fs_files w)
              \<and> map_of (fs_files w) (?C @ fst e) = Some (snd e)
              \<and> digest E alg (snd e) \<noteq> None \<and> ?C @ fst e \<noteq> ?A \<and> ?C @ fst e \<noteq> ?M"
    if "e \<in> set es" for e
  proof -
    from that obtain rel where rel: "rel \<in> set ?rels" "e = backup_entry w src rel"
      by (auto simp: es_def)
    note en = entry[OF rel(1)] and wk = walk[OF rel(1)]
    from wf_world_file(1)[of w "?S @ rel"] wf wk en rel(2) have cl: "clean_key (fst e)"
      by (metis clean_key_simps(3))
    have ne: "fst e \<noteq> []"
    proof
      assume "fst e = []"
      with en rel(2) have "?S @ rel = ?C" by simp
      with wk wfc(2) show False by simp
    qed
    from notsrc rel(1) wk have "?S @ rel \<noteq> ?A" "?S @ rel \<noteq> ?M" by auto
    with cl ne en wk below rel show ?thesis by auto
  qed
  have dist: "distinct (map fst es)"
  proof -
    have "distinct ?rels" using wf by (intro os_walk_distinct) (simp add: wf_world_def)
    moreover have "inj_on (\<lambda>rel. fst (backup_entry w src rel)) (set ?rels)"
    proof (rule inj_onI)
      fix r r' assume r: "r \<in> set ?rels" "r' \<in> set ?rels"
        and eq: "fst (backup_entry w src r) = fst (backup_entry w src r')"
      from entry[OF r(1)] entry[OF r(2)] eq have "?S @ r = ?S @ r'" by metis
      then show "r = r'" by simp
    qed
    ultimately show ?thesis by (simp add: es_def distinct_map comp_def)
  qed
  have anti: "\<forall>e \<in> set es. \<forall>e' \<in> set es. \<not> strict_prefix (fst e) (fst e')"
  proof (intro ballI notI)
    fix e e' assume e: "e \<in> set es" "e' \<in> set es" and sp: "strict_prefix (fst e) (fst e')"
    then have "strict_prefix (?C @ fst e) (?C @ fst e')" by (simp add: strict_prefix_def)
    with wf_world_file(3)[OF wf, of "?C @ fst e'"] es[OF e(2)] have "is_dir w (?C @ fst e)"
      by simp
    with wf_world_file(2)[OF wf, of "?C @ fst e"] es[OF e(1)] show False by simp
  qed
  \<comment> \<open>the archive\<close>
  have "tar_add_all (archive_opened w (tar_name name)) ?A (map (\<lambda>e. Path False (fst e)) es) [] =
          Inr ([] @ map (\<lambda>e. (join_sep ''/'' (fst e), snd e)) es)"
  proof (rule tar_add_all_entries)
    show "''..'' \<notin> set (cwd (archive_opened w (tar_name name)))"
      using ndC by (simp add: archive_opened_def)
    show "\<forall>e \<in> set es. clean_key (fst e) \<and> fst e \<noteq> []
            \<and> cwd (archive_opened w (tar_name name)) @ fst e \<noteq> ?A
            \<and> map_of (fs_files (archive_opened w (tar_name name)))
                (cwd (archive_opened w (tar_name name)) @ fst e) = Some (snd e)"
      using es by (auto simp: archive_opened_def update_conv')
  qed
  moreover have "paths = map (\<lambda>e. Path False (fst e)) es"
    by (simp add: paths es_def comp_def)
  ultimately have members: "members = map (\<lambda>e. (join_sep ''/'' (fst e), snd e)) es"
    using add by simp
  have mf: "files ?m = map (\<lambda>e. \<lparr>path = join_sep ''/'' (fst e),
                             file_checksum = the (digest E (checksum_algorithm ?m) (snd e))\<rparr>) es"
  proof -
    have "str_of_path (Path False (fst e)) = join_sep ''/'' (fst e)" if "e \<in> set es" for e
      using es[OF that] by (simp add: str_of_path_relative)
    then show ?thesis by (simp add: mfiles es_def comp_def)
  qed
  \<comment> \<open>the world the restore starts in\<close>
  have rm: "read_file w1 (manifest_name name) = Inr (json_dump ?m)"
    by (simp add: read_file_def k1 f1)
  have ra: "read_file w1 (tar_name name) = Inr (tar_pack E members)"
    using AM by (simp add: read_file_def k1 f1)
  have ra': "read_file w1 (path_of_str (archive_name ?m)) = Inr (tar_pack E members)"
    using ra by (simp add: tar_name_def)
  have file1: "is_file w1 k \<longleftrightarrow> k = ?M \<or> k = ?A \<or> k \<in> fst ` set (fs_files w)" for k
    using is_file_iff[of w k] by (simp add: is_file_def f1)
  have cleanR: "clean_key ?R" using wf_world_dir(1)[OF wf] rootdir by (simp add: dir1)
  have above: "\<forall>p. prefix p ?R \<longrightarrow> \<not> is_file w1 p"
  proof (intro allI impI)
    fix p assume "prefix p ?R"
    with wf_world_dir(2)[OF wf, of ?R p] rootdir have "is_dir w p" by (simp add: dir1)
    with nodir wf_world_file(2)[OF wf, of p] show "\<not> is_file w1 p" by (auto simp: file1)
  qed
  have empty': "\<forall>k. strict_prefix ?R k \<longrightarrow> \<not> is_file w1 k \<and> \<not> is_dir w1 k"
  proof (intro allI impI)
    fix k assume sp: "strict_prefix ?R k"
    then have "k \<noteq> []" by auto
    with empty sp show "\<not> is_file w1 k \<and> \<not> is_dir w1 k"
      by (auto simp: is_file_iff is_dir_def)
  qed
  have es1: "\<forall>e \<in> set es. clean_key (fst e) \<and> fst e \<noteq> []
               \<and> map_of (fs_files w1) (cwd w1 @ fst e) = Some (snd e)
               \<and> digest E (checksum_algorithm ?m) (snd e) \<noteq> None"
    using es by (auto simp: c1 f1)
  have "\<exists>w2. cmd_restore E (manifest_name name) dst w1 = (Inr EX_OK, w2)
              \<and> stdout w2 = stdout w1 @ [''Backup restored successfully'']
              \<and> stderr w2 = stderr w1 \<and> cwd w2 = cwd w1
              \<and> (\<forall>e \<in> set es. map_of (fs_files w2) (?R @ fst e) = Some (snd e))
              \<and> (\<forall>k. \<not> strict_prefix ?R k \<longrightarrow> map_of (fs_files w2) k = map_of (fs_files w1) k)"
  proof (rule restore_entries[where mtext = "json_dump ?m" and m = "?m"
        and ab = "tar_pack E members"])
    show "clean_key (cwd w1)" "is_dir w1 (cwd w1)" using wfc by (simp_all add: c1 dir1)
    show "\<forall>e \<in> set es. clean_key (fst e) \<and> fst e \<noteq> []
               \<and> map_of (fs_files w1) (cwd w1 @ fst e) = Some (snd e)
               \<and> digest E (checksum_algorithm ?m) (snd e) \<noteq> None" by (rule es1)
    show "distinct (map fst es)" by (rule dist)
    show "\<forall>e \<in> set es. \<forall>e' \<in> set es. \<not> strict_prefix (fst e) (fst e')" by (rule anti)
    show "read_file w1 (manifest_name name) = Inr (json_dump ?m)" by (rule rm)
    show "json_load E (json_dump ?m) = Some ?m" using jl scan ra dg by blast
    show "files ?m = map (\<lambda>e. \<lparr>path = join_sep ''/'' (fst e),
                             file_checksum = the (digest E (checksum_algorithm ?m) (snd e))\<rparr>) es"
      by (rule mf)
    show "read_file w1 (path_of_str (archive_name ?m)) = Inr (tar_pack E members)" by (rule ra')
    show "digest E (checksum_algorithm ?m) (tar_pack E members) = Some (checksum ?m)"
      using dg by simp
    show "tar_unpack E (tar_pack E members) =
            Some (map (\<lambda>e. (join_sep ''/'' (fst e), snd e)) es)"
      using unp ra members by blast
    show "?R = abs_key w1 dst" by simp
    show "is_dir w1 ?R" by (rule rootdir)
    show "clean_key ?R" by (rule cleanR)
    show "\<forall>p. prefix p ?R \<longrightarrow> \<not> is_file w1 p" by (rule above)
    show "\<forall>k. strict_prefix ?R k \<longrightarrow> \<not> is_file w1 k \<and> \<not> is_dir w1 k" by (rule empty')
  qed
  then obtain w2 where
    run: "cmd_restore E (manifest_name name) dst w1 = (Inr EX_OK, w2)"
    "stdout w2 = stdout w1 @ [''Backup restored successfully'']"
    "stderr w2 = stderr w1" "cwd w2 = cwd w1"
    and restored: "\<forall>e \<in> set es. map_of (fs_files w2) (?R @ fst e) = Some (snd e)"
    by blast
  have "\<exists>b. map_of (fs_files w) (abs_key w (path_join src rel)) = Some b
           \<and> prefix ?C (abs_key w (path_join src rel))
           \<and> map_of (fs_files w2) (?R @ drop (length ?C) (abs_key w (path_join src rel))) = Some b"
    if "rel \<in> set ?rels" for rel
  proof -
    have e: "backup_entry w src rel \<in> set es" using that by (simp add: es_def)
    from walk[OF that] have k: "abs_key w (path_join src rel) = ?S @ rel" by simp
    have "fst (backup_entry w src rel) = drop (length ?C) (?S @ rel)"
      by (simp add: backup_entry_def)
    with restored e entry[OF that] below that k show ?thesis by auto
  qed
  with run show ?thesis by blast
qed

theorem backup_restore_round_trip_witness:
  "wf_world example_world
   \<and> cmd_backup example_env (Path False [''d'']) (Path False [''a'']) ''sha1'' example_world =
       (Inr EX_OK, world_with ''T'' example_manifest)
   \<and> os_walk example_world (Path False [''d'']) = [[''f'']]
   \<and> abs_key example_world (path_join (Path False [''d'']) [''f'']) = [''w'', ''d'', ''f'']
   \<and> abs_key example_world (tar_name (Path False [''a''])) = [''w'', ''a.tar.gz'']
   \<and> abs_key example_world (manifest_name (Path False [''a''])) = [''w'', ''a.manifest'']
   \<and> abs_key (world_with ''T'' example_manifest) (Path False [''r'']) = [''w'', ''r'']
   \<and> is_dir (world_with ''T'' example_manifest) [''w'', ''r'']
   \<and> map_of (fs_files example_world) [''w'', ''d'', ''f''] = Some ''x''
   \<and> (\<exists>w2. cmd_restore example_env (manifest_name (Path False [''a''])) (Path False [''r''])
               (world_with ''T'' example_manifest) = (Inr EX_OK, w2)
            \<and> stdout w2 = [''Backup restored successfully''] \<and> stderr w2 = []
            \<and> cwd w2 = [''w'']
            \<and> map_of (fs_files w2) [''w'', ''r'', ''d'', ''f''] = Some ''x'')"
proof -
  let ?w = example_world and ?w1 = "world_with ''T'' example_manifest"
  let ?src = "Path False [''d'']" and ?name = "Path False [''a'']" and ?dst = "Path False [''r'']"
  have walk: "os_walk ?w ?src = [[''f'']]"
    by (simp add: example_world_def eval_defs)
  have k: "abs_key ?w (path_join ?src [''f'']) = [''w'', ''d'', ''f'']"
    by (simp add: example_world_def eval_defs)
  have A: "abs_key ?w (tar_name ?name) = [''w'', ''a.tar.gz'']"
    by (simp add: tar_name_def example_world_def eval_defs)
  have M: "abs_key ?w (manifest_name ?name) = [''w'', ''a.manifest'']"
    by (simp add: manifest_name_def example_world_def eval_defs)
  have R: "abs_key ?w1 ?dst = [''w'', ''r'']"
    by (simp add: world_with_def example_world_def eval_defs)
  have rd: "is_dir ?w1 [''w'', ''r'']"
    by (simp add: world_with_def example_world_def is_dir_def)
  have c: "map_of (fs_files ?w) [''w'', ''d'', ''f''] = Some ''x''"
    by (simp add: example_world_def)
  have notsrc: "\<forall>rel \<in> set (os_walk ?w ?src).
                   abs_key ?w (path_join ?src rel) \<noteq> abs_key ?w (tar_name ?name) \<and>
                   abs_key ?w (path_join ?src rel) \<noteq> abs_key ?w (manifest_name ?name)"
    by (simp add: walk k A M)
  have ra: "read_file ?w1 (tar_name ?name) = Inr ''T''"
    by (simp add: tar_name_def example_defs eval_defs)
  have unp: "\<forall>ms. read_file ?w1 (tar_name ?name) = Inr (tar_pack example_env ms) \<longrightarrow>
                   tar_unpack example_env (tar_pack example_env ms) = Some ms"
    by (simp add: ra) (simp add: example_env_def)
  have scan: "backup_scan example_env ?w ?src ''sha1'' (os_walk ?w ?src) ([], []) =
                Inr ([Path False [''d'', ''f'']], [\<lparr>path = ''d/f'', file_checksum = ''h:x''\<rparr>])"
    by (simp add: walk) (simp add: example_defs eval_defs)
  have jl: "\<forall>paths mfiles b ck.
               backup_scan example_env ?w ?src ''sha1'' (os_walk ?w ?src) ([], []) =
                 Inr (paths, mfiles) \<longrightarrow>
               read_file ?w1 (tar_name ?name) = Inr b \<longrightarrow>
               digest example_env ''sha1'' b = Some ck \<longrightarrow>
               json_load example_env
                 (json_dump \<lparr>archive_name = str_of_path ?name @ ''.tar.gz'', checksum = ck,
                             checksum_algorithm = ''sha1'', creation_time = time_now example_env,
                             files = mfiles\<rparr>) =
               Some \<lparr>archive_name = str_of_path ?name @ ''.tar.gz'', checksum = ck,
                     checksum_algorithm = ''sha1'', creation_time = time_now example_env,
                     files = mfiles\<rparr>"
  proof (intro allI impI)
    fix paths mfiles b ck
    assume "backup_scan example_env ?w ?src ''sha1'' (os_walk ?w ?src) ([], []) =
              Inr (paths, mfiles)"
      and "read_file ?w1 (tar_name ?name) = Inr b"
      and "digest example_env ''sha1'' b = Some ck"
    with scan ra have "mfiles = [\<lparr>path = ''d/f'', file_checksum = ''h:x''\<rparr>]" "ck = ''h:T''"
      by (auto simp: example_env_def)
    then have "\<lparr>archive_name = str_of_path ?name @ ''.tar.gz'', checksum = ck,
                checksum_algorithm = ''sha1'', creation_time = time_now example_env,
                files = mfiles\<rparr> = example_manifest"
      by (simp add: example_manifest_def example_env_def str_of_path_def)
    then show "json_load example_env
                 (json_dump \<lparr>archive_name = str_of_path ?name @ ''.tar.gz'', checksum = ck,
                             checksum_algorithm = ''sha1'', creation_time = time_now example_env,
                             files = mfiles\<rparr>) =
               Some \<lparr>archive_name = str_of_path ?name @ ''.tar.gz'', checksum = ck,
                     checksum_algorithm = ''sha1'', creation_time = time_now example_env,
                     files = mfiles\<rparr>"
      by (simp only: json_load_example)
  qed
  have rootdir: "is_dir ?w1 (abs_key ?w1 ?dst)" using rd R by simp
  have empty: "\<forall>k \<in> fst ` set (fs_files ?w1) \<union> set (fs_dirs ?w1).
                  \<not> strict_prefix (abs_key ?w1 ?dst) k"
    unfolding R by (simp add: world_with_def example_world_def)
  from backup_restore_round_trip
         [OF wf_example backup_example notsrc unp jl rootdir empty]
  obtain w2 where
    run: "cmd_restore example_env (manifest_name ?name) ?dst ?w1 = (Inr EX_OK, w2)"
    "stdout w2 = stdout ?w1 @ [''Backup restored successfully'']"
    "stderr w2 = stderr ?w1" "cwd w2 = cwd ?w1"
    and files: "\<forall>rel \<in> set (os_walk ?w ?src).
                    \<exists>b. map_of (fs_files ?w) (abs_key ?w (path_join ?src rel)) = Some b
                       \<and> prefix (cwd ?w) (abs_key ?w (path_join ?src rel))
                       \<and> map_of (fs_files w2)
                           (abs_key ?w1 ?dst @
                              drop (length (cwd ?w)) (abs_key ?w (path_join ?src rel))) = Some b"
    by blast
  from files have "\<exists>b. map_of (fs_files ?w) (abs_key ?w (path_join ?src [''f''])) = Some b
                       \<and> map_of (fs_files w2)
                           (abs_key ?w1 ?dst @
                              drop (length (cwd ?w)) (abs_key ?w (path_join ?src [''f'']))) = Some b"
    unfolding walk by auto
  then have "map_of (fs_files w2) ([''w'', ''r''] @ drop (length (cwd ?w)) [''w'', ''d'', ''f'']) =
               Some ''x''"
    unfolding k R c by simp
  then have "map_of (fs_files w2) [''w'', ''r'', ''d'', ''f''] = Some ''x''"
    by (simp add: example_world_def)
  with run have "\<exists>w2. cmd_restore example_env (manifest_name ?name) ?dst ?w1 = (Inr EX_OK, w2)
            \<and> stdout w2 = [''Backup restored successfully''] \<and> stderr w2 = []
            \<and> cwd w2 = [''w'']
            \<and> map_of (fs_files w2) [''w'', ''r'', ''d'', ''f''] = Some ''x''"
    by (auto simp: world_with_def example_world_def)
  with wf_example backup_example walk k A M R rd c show ?thesis by blast
qed

text \<open>
  The claim as the specification states it fails: a tree that is not below the working
  directory cannot be backed up at all; a restore run after the source file is gone
  extracts the file and then raises \<^verbatim>\<open>FileNotFoundError\<close>, because the reconciliation
  opens the path below the working directory; and a backup whose archive name is that of a
  file of the tree replaces that file by the archive, which \<^verbatim>\<open>tarfile\<close> does not add to
  itself, so the restore reports the file missing.
\<close>

lemma json_load_nested:
  "json_load example_env (json_dump nested_manifest) = Some nested_manifest"
  by (simp add: example_defs json_defs)

lemma backup_nested_example:
  "cmd_backup example_env (Path False [''d'']) (Path False [''d'', ''f'']) ''sha1'' nested_world =
     (Inr EX_OK, nested_backup_world)"
  by (simp add: cmd_backup_def nested_world_def nested_backup_world_def example_defs eval_defs)

lemma restore_nested_example:
  "cmd_restore example_env (Path False [''d'', ''f.manifest'']) (Path False [''r''])
     nested_backup_world =
   (Inr EX_DATAERR,
    (extracted nested_backup_world)
      \<lparr>stderr := [''Missing paths: d/f.tar.gz'', ''Backup restoration failed'']\<rparr>)"
  by (simp add: cmd_restore_def json_load_nested nested_backup_world_def example_world_def
      read_file_def abs_key_def)
     (simp add: example_defs eval_defs restore_defs extracted_def)

theorem round_trip_counterexample:
  "os_walk outside_world (Path True [''etc'']) = [[''p'']]
   \<and> cmd_backup example_env (Path True [''etc'']) (Path False [''a'']) ''sha1'' outside_world =
       (Inl (ValueError
          ('''/etc/p' is not in the subpath of '/w' OR one path is relative '' @
           ''and the other is absolute.'')), outside_world)
   \<and> cmd_backup example_env (Path False [''d'']) (Path False [''a'']) ''sha1'' example_world =
       (Inr EX_OK, world_with ''T'' example_manifest)
   \<and> removed_world =
       (world_with ''T'' example_manifest)
         \<lparr>fs_files :=
            [([''w'', ''a.tar.gz''], ''T''), ([''w'', ''a.manifest''], json_dump example_manifest)]\<rparr>
   \<and> cmd_restore example_env (Path False [''a.manifest'']) (Path False [''r'']) removed_world =
       (Inl FileNotFoundError, extracted removed_world)
   \<and> map_of (fs_files (extracted removed_world)) [''w'', ''r'', ''d'', ''f''] = Some ''x''
   \<and> cmd_backup example_env (Path False [''d'']) (Path False [''d'', ''f'']) ''sha1''
        nested_world = (Inr EX_OK, nested_backup_world)
   \<and> cmd_restore example_env (Path False [''d'', ''f.manifest'']) (Path False [''r''])
        nested_backup_world =
       (Inr EX_DATAERR,
        (extracted nested_backup_world)
          \<lparr>stderr := [''Missing paths: d/f.tar.gz'', ''Backup restoration failed'']\<rparr>)"
proof -
  have "os_walk outside_world (Path True [''etc'']) = [[''p'']]"
    by (simp add: outside_world_def example_world_def eval_defs)
  moreover have "cmd_backup example_env (Path True [''etc'']) (Path False [''a'']) ''sha1''
                   outside_world =
                 (Inl (ValueError
          ('''/etc/p' is not in the subpath of '/w' OR one path is relative '' @
           ''and the other is absolute.'')), outside_world)"
    by (simp add: cmd_backup_def outside_world_def example_defs eval_defs)
  moreover have "removed_world =
       (world_with ''T'' example_manifest)
         \<lparr>fs_files :=
            [([''w'', ''a.tar.gz''], ''T''), ([''w'', ''a.manifest''], json_dump example_manifest)]\<rparr>"
    by (simp add: removed_world_def world_with_def)
  moreover have "map_of (fs_files (extracted removed_world)) [''w'', ''r'', ''d'', ''f''] =
                   Some ''x''"
    by (simp add: extracted_def removed_world_def world_with_def)
  ultimately show ?thesis
    using backup_example restore_removed_example backup_nested_example restore_nested_example
    by simp
qed

section \<open>Restore: the reconciliation\<close>

text \<open>
  C6. For a path with components \<open>rel\<close> below the restore root that the manifest lists, the
  reconciliation opens \<^verbatim>\<open>relative_path\<close> as it stands, that is the location \<open>rel\<close> below
  the working directory, and classifies the path by the digest of that file (or raises
  the error of opening it when it cannot be read). When the restore root is not the
  working directory this is not the location of the restored file, and overwriting the
  restored file with any content leaves the outcome for that path unchanged.
\<close>

theorem reconcile_reads_relative_to_cwd:
  assumes "''..'' \<notin> set (cwd w)" and "''..'' \<notin> set rel"
    and "map_of path_checksums (str_of_path (Path False rel)) = Some expected_checksum"
    and "abs_key w args_path \<noteq> cwd w"
  shows "abs_key w (path_join args_path rel) = abs_key w args_path @ rel
       \<and> abs_key w (Path False rel) = cwd w @ rel
       \<and> abs_key w (Path False rel) \<noteq> abs_key w (path_join args_path rel)
       \<and> reconcile_scan E w args_path alg path_checksums [rel] ([], []) =
           (case read_file w (Path False rel) of
              Inl e \<Rightarrow> Inl e
            | Inr b \<Rightarrow>
                (case digest E alg b of
                   None \<Rightarrow> Inl (ValueError (''unsupported hash type '' @ alg))
                 | Some h \<Rightarrow>
                     Inr (if h \<noteq> expected_checksum
                          then ([(Path False rel,
                                  \<lparr>generated = h, expected = expected_checksum\<rparr>)], [])
                          else ([], [str_of_path (Path False rel)]))))
       \<and> read_file w (Path False rel) =
           (case map_of (fs_files w) (cwd w @ rel) of
              Some b \<Rightarrow> Inr b
            | None \<Rightarrow>
                Inl (if is_dir w (cwd w @ rel) then IsADirectoryError
                     else if list_ex (is_file w) (prefixes (butlast (cwd w @ rel)))
                     then NotADirectoryError
                     else FileNotFoundError))
       \<and> (is_file w (abs_key w (path_join args_path rel)) \<longrightarrow>
            (\<forall>b. reconcile_scan E
                  (w\<lparr>fs_files := AList.update (abs_key w (path_join args_path rel)) b (fs_files w)\<rparr>)
                  args_path alg path_checksums [rel] ([], []) =
                reconcile_scan E w args_path alg path_checksums [rel] ([], [])))"
proof -
  have k1: "abs_key w (path_join args_path rel) = abs_key w args_path @ rel"
    using assms(2) by (rule abs_key_path_join)
  have k2: "abs_key w (Path False rel) = cwd w @ rel"
    using assms(1,2) by (rule abs_key_relative)
  have ne: "abs_key w (Path False rel) \<noteq> abs_key w (path_join args_path rel)"
    using assms(4) by (simp add: k1 k2)
  have step: "reconcile_scan E w' args_path alg path_checksums [rel] ([], []) =
           (case read_file w' (Path False rel) of
              Inl e \<Rightarrow> Inl e
            | Inr b \<Rightarrow>
                (case digest E alg b of
                   None \<Rightarrow> Inl (ValueError (''unsupported hash type '' @ alg))
                 | Some h \<Rightarrow>
                     Inr (if h \<noteq> expected_checksum
                          then ([(Path False rel,
                                  \<lparr>generated = h, expected = expected_checksum\<rparr>)], [])
                          else ([], [str_of_path (Path False rel)]))))" for w'
    using assms(3)
    by (simp add: relative_to_path_join generate_checksum_def split: sum.splits option.splits)
  have rd: "read_file w (Path False rel) =
           (case map_of (fs_files w) (cwd w @ rel) of
              Some b \<Rightarrow> Inr b
            | None \<Rightarrow>
                Inl (if is_dir w (cwd w @ rel) then IsADirectoryError
                     else if list_ex (is_file w) (prefixes (butlast (cwd w @ rel)))
                     then NotADirectoryError
                     else FileNotFoundError))"
    by (simp add: read_file_def k2 split: option.splits)
  have same: "reconcile_scan E
                (w\<lparr>fs_files := AList.update (abs_key w (path_join args_path rel)) b (fs_files w)\<rparr>)
                args_path alg path_checksums [rel] ([], []) =
              reconcile_scan E w args_path alg path_checksums [rel] ([], [])"
    if ex: "is_file w (abs_key w (path_join args_path rel))" for b
  proof -
    let ?K = "abs_key w (path_join args_path rel)"
    let ?w' = "w\<lparr>fs_files := AList.update ?K b (fs_files w)\<rparr>"
    have key: "abs_key ?w' (Path False rel) = abs_key w (Path False rel)"
      by (simp add: abs_key_def)
    have "map_of (fs_files ?w') (abs_key w (Path False rel)) =
            map_of (fs_files w) (abs_key w (Path False rel))"
      using ne by (simp add: update_conv')
    moreover have "is_dir ?w' k = is_dir w k" for k
      by (simp add: is_dir_def)
    moreover have "is_file ?w' k = is_file w k" for k
      using ex by (simp add: is_file_def update_conv')
    then have "is_file ?w' = is_file w" by (rule ext)
    ultimately have "read_file ?w' (Path False rel) = read_file w (Path False rel)"
      by (simp add: read_file_def key Let_def)
    then show ?thesis
      using step[of ?w'] step[of w] by simp
  qed
  show ?thesis using k1 k2 ne step[of w] rd same by simp
qed

theorem reconcile_reads_relative_to_cwd_witness:
  "''..'' \<notin> set (cwd (extracted changed_world))
   \<and> map_of (path_checksums_of example_manifest) (str_of_path (Path False [''d'', ''f''])) =
       Some ''h:x''
   \<and> abs_key (extracted changed_world) (Path False [''r'']) = [''w'', ''r'']
   \<and> cwd (extracted changed_world) = [''w'']
   \<and> abs_key (extracted changed_world) (path_join (Path False [''r'']) [''d'', ''f'']) =
       [''w'', ''r'', ''d'', ''f'']
   \<and> abs_key (extracted changed_world) (Path False [''d'', ''f'']) = [''w'', ''d'', ''f'']
   \<and> map_of (fs_files (extracted changed_world)) [''w'', ''r'', ''d'', ''f''] = Some ''x''
   \<and> map_of (fs_files (extracted changed_world)) [''w'', ''d'', ''f''] = Some ''y''
   \<and> reconcile_scan example_env (extracted changed_world) (Path False [''r'']) ''sha1''
        (path_checksums_of example_manifest) [[''d'', ''f'']] ([], []) =
       Inr ([(Path False [''d'', ''f''], \<lparr>generated = ''h:y'', expected = ''h:x''\<rparr>)], [])
   \<and> reconcile_scan example_env
        ((extracted changed_world)
           \<lparr>fs_files := AList.update [''w'', ''r'', ''d'', ''f''] ''z''
                          (fs_files (extracted changed_world))\<rparr>)
        (Path False [''r'']) ''sha1''
        (path_checksums_of example_manifest) [[''d'', ''f'']] ([], []) =
       Inr ([(Path False [''d'', ''f''], \<lparr>generated = ''h:y'', expected = ''h:x''\<rparr>)], [])
   \<and> cmd_restore example_env (Path False [''a.manifest'']) (Path False [''r'']) changed_world =
       (Inr EX_DATAERR,
        (extracted changed_world)
          \<lparr>stderr := [''Bad checksums: d/f: expected h:x, got h:y'', ''Missing paths: d/f'',
                       ''Backup restoration failed'']\<rparr>)
   \<and> map_of (fs_files blocked_world) [''w'', ''d''] = Some ''q''
   \<and> map_of (fs_files blocked_world) [''w'', ''r'', ''d'', ''f''] = Some ''x''
   \<and> read_file blocked_world (Path False [''d'', ''f'']) = Inl NotADirectoryError
   \<and> reconcile_scan example_env blocked_world (Path False [''r'']) ''sha1''
        (path_checksums_of example_manifest) [[''d'', ''f'']] ([], []) =
       Inl NotADirectoryError"
proof -
  let ?w = "extracted changed_world"
  have c: "cwd ?w = [''w'']"
    by (simp add: extracted_def changed_world_def world_with_def example_world_def)
  have h1: "''..'' \<notin> set (cwd ?w)" by (simp add: c)
  have h2: "''..'' \<notin> set [''d'', ''f'']" by simp
  have h3: "map_of (path_checksums_of example_manifest) (str_of_path (Path False [''d'', ''f''])) =
              Some ''h:x''"
    by (simp add: path_checksums_of_def example_manifest_def str_of_path_def)
  have R: "abs_key ?w (Path False [''r'']) = [''w'', ''r'']"
    by (simp add: abs_key_def c)
  have h4: "abs_key ?w (Path False [''r'']) \<noteq> cwd ?w" by (simp add: R c)
  have f1: "map_of (fs_files ?w) [''w'', ''r'', ''d'', ''f''] = Some ''x''"
    and f2: "map_of (fs_files ?w) [''w'', ''d'', ''f''] = Some ''y''"
    by (simp_all add: extracted_def changed_world_def world_with_def example_world_def)
  have d: "digest example_env ''sha1'' ''y'' = Some ''h:y''" by (simp add: example_env_def)
  note t = reconcile_reads_relative_to_cwd[OF h1 h2 h3 h4, of example_env "''sha1''"]
  from t have K: "abs_key ?w (path_join (Path False [''r'']) [''d'', ''f'']) =
                    [''w'', ''r'', ''d'', ''f'']"
    and k: "abs_key ?w (Path False [''d'', ''f'']) = [''w'', ''d'', ''f'']"
    by (simp_all add: R c)
  from t have rd: "read_file ?w (Path False [''d'', ''f'']) = Inr ''y''"
    by (simp add: c f2)
  from t have sc: "reconcile_scan example_env ?w (Path False [''r'']) ''sha1''
        (path_checksums_of example_manifest) [[''d'', ''f'']] ([], []) =
       Inr ([(Path False [''d'', ''f''], \<lparr>generated = ''h:y'', expected = ''h:x''\<rparr>)], [])"
    by (simp add: rd d)
  have ex: "is_file ?w (abs_key ?w (path_join (Path False [''r'']) [''d'', ''f'']))"
    by (simp add: K is_file_def f1)
  from t ex have "reconcile_scan example_env
        (?w\<lparr>fs_files := AList.update (abs_key ?w (path_join (Path False [''r'']) [''d'', ''f'']))
                          ''z'' (fs_files ?w)\<rparr>)
        (Path False [''r'']) ''sha1''
        (path_checksums_of example_manifest) [[''d'', ''f'']] ([], []) =
      reconcile_scan example_env ?w (Path False [''r'']) ''sha1''
        (path_checksums_of example_manifest) [[''d'', ''f'']] ([], [])"
    by blast
  then have ov: "reconcile_scan example_env
        (?w\<lparr>fs_files := AList.update [''w'', ''r'', ''d'', ''f''] ''z'' (fs_files ?w)\<rparr>)
        (Path False [''r'']) ''sha1''
        (path_checksums_of example_manifest) [[''d'', ''f'']] ([], []) =
       Inr ([(Path False [''d'', ''f''], \<lparr>generated = ''h:y'', expected = ''h:x''\<rparr>)], [])"
    unfolding K sc .
  have c': "cwd blocked_world = [''w'']"
    and g1: "map_of (fs_files blocked_world) [''w'', ''d''] = Some ''q''"
    and g2: "map_of (fs_files blocked_world) [''w'', ''r'', ''d'', ''f''] = Some ''x''"
    and g3: "map_of (fs_files blocked_world) [''w'', ''d'', ''f''] = None"
    and g4: "\<not> is_dir blocked_world [''w'', ''d'', ''f'']"
    by (simp_all add: blocked_world_def example_world_def is_dir_def)
  have h1': "''..'' \<notin> set (cwd blocked_world)" by (simp add: c')
  have h4': "abs_key blocked_world (Path False [''r'']) \<noteq> cwd blocked_world"
    by (simp add: abs_key_def c')
  have through: "list_ex (is_file blocked_world) (prefixes (butlast [''w'', ''d'', ''f'']))"
    by (simp add: is_file_def g1)
  note t' = reconcile_reads_relative_to_cwd[OF h1' h2 h3 h4', of example_env "''sha1''"]
  from t' have rd': "read_file blocked_world (Path False [''d'', ''f'']) = Inl NotADirectoryError"
    using through by (simp add: c' g3 g4)
  from t' have sc': "reconcile_scan example_env blocked_world (Path False [''r'']) ''sha1''
        (path_checksums_of example_manifest) [[''d'', ''f'']] ([], []) =
       Inl NotADirectoryError"
    by (simp add: rd')
  from h1 h3 R c K k f1 f2 sc ov restore_changed_example g1 g2 rd' sc' show ?thesis by simp
qed

text \<open>
  C2. The manifest of the example altered to list \<^verbatim>\<open>d/f\<close> with a wrong checksum: the
  extraction succeeds, the file is present and its checksum differs, and the
  reconciliation puts the path both into \<^verbatim>\<open>bad_checksums\<close> and into \<^verbatim>\<open>missing_paths\<close>, so the
  report lists it as bad and as missing.
\<close>

theorem reconcile_bad_checksum_also_missing:
  "cd (Path False [''r'']) (safe_extract [(''d/f'', ''x'')]) (world_with ''T'' altered_manifest) =
     (Inr (), extracted (world_with ''T'' altered_manifest))
   \<and> map_of (fs_files (extracted (world_with ''T'' altered_manifest))) [''w'', ''r'', ''d'', ''f''] =
       Some ''x''
   \<and> reconcile example_env altered_manifest (Path False [''r''])
        (extracted (world_with ''T'' altered_manifest)) =
       Inr ([(Path False [''d'', ''f''], \<lparr>generated = ''h:x'', expected = ''h:y''\<rparr>)], [],
            [''d/f''])
   \<and> cmd_restore example_env (Path False [''a.manifest'']) (Path False [''r''])
        (world_with ''T'' altered_manifest) =
       (Inr EX_DATAERR,
        (extracted (world_with ''T'' altered_manifest))
          \<lparr>stderr := [''Bad checksums: d/f: expected h:y, got h:x'', ''Missing paths: d/f'',
                       ''Backup restoration failed'']\<rparr>)"
proof -
  have "cd (Path False [''r'']) (safe_extract [(''d/f'', ''x'')])
          (world_with ''T'' altered_manifest) =
        (Inr (), extracted (world_with ''T'' altered_manifest))"
    by (simp add: example_defs eval_defs restore_defs extracted_def)
  moreover have "map_of (fs_files (extracted (world_with ''T'' altered_manifest)))
                   [''w'', ''r'', ''d'', ''f''] = Some ''x''"
    by (simp add: extracted_def world_with_def)
  ultimately show ?thesis
    using reconcile_altered_example restore_altered_example by simp
qed

end
